theory Spec2Isabelle
  imports Main "HOL-Library.Word" "HOL-Library.AList"
begin

unbundle bit_operations_syntax

section \<open>Python values used by make_bnk.py\<close>

text \<open>
  Python integers are unbounded and are modelled as \<^typ>\<open>int\<close>. A Python \<open>str\<close> is
  modelled as a \<^typ>\<open>string\<close>, each \<^typ>\<open>char\<close> standing for the code point of the same
  number, so the model covers the strings whose code points are below 256 (ASCII and
  Latin-1). On these code points \<open>str.lower\<close> works character by character and stays
  inside the range: it adds 32 to \<open>A\<close>..\<open>Z\<close> and to 0xC0..0xDE except 0xD7.
\<close>

type_synonym byte = "8 word"

definition py_ord :: "char \<Rightarrow> int" where
  "py_ord c = of_char c"

definition lower_char :: "char \<Rightarrow> char" where
  "lower_char c =
     (let n = (of_char c :: nat)
      in if (65 \<le> n \<and> n \<le> 90) \<or> (192 \<le> n \<and> n \<le> 222 \<and> n \<noteq> 215)
         then char_of (n + 32) else c)"

definition lower :: "string \<Rightarrow> string" where
  "lower s = map lower_char s"

section \<open>Identity hasher\<close>

text \<open>
  \<^verbatim>\<open>
  def compute_hash(name: str) -> int:
      hash = 2166136261
      name = name.lower()
      for c in name:
          hash = ((hash * 16777619) ^ ord(c)) & 0xFFFFFFFF
      return hash
  \<close>
  The \<open>for\<close> loop is a left fold over the lower-cased name.
\<close>

definition compute_hash :: "string \<Rightarrow> int" where
  "compute_hash name =
     foldl (\<lambda>hash c. ((hash * 16777619) XOR py_ord c) AND 0xFFFFFFFF) 2166136261 (lower name)"

text \<open>
  The accumulation as the specification words it: start with the offset basis
  2166136261 and, for each element, \<open>accum = ((accum * 16777619) XOR element) mod 2^32\<close>.
  It takes the elements (code points) of an already lower-cased string.
\<close>

fun fnv_accumulate :: "int \<Rightarrow> int list \<Rightarrow> int" where
  "fnv_accumulate accum [] = accum"
| "fnv_accumulate accum (element # rest) =
     fnv_accumulate (((accum * 16777619) XOR element) mod 2 ^ 32) rest"

definition fnv_spec :: "int list \<Rightarrow> int" where
  "fnv_spec elements = fnv_accumulate 2166136261 elements"

section \<open>Errors and results\<close>

text \<open>
  Every way the script can stop early is a value: an \<open>IndexError\<close> from indexing a list,
  the \<open>exit(1)\<close> of the duplicate check, a clip file that cannot be opened, an
  \<open>OverflowError\<close> from \<open>int.to_bytes(length = 4)\<close> and a \<open>KeyError\<close> from indexing the
  catalog.
\<close>

datatype error =
    IndexError
  | Exit int
  | FileNotFoundError string
  | OverflowError
  | KeyError int

definition bindE :: "error + 'a \<Rightarrow> ('a \<Rightarrow> error + 'b) \<Rightarrow> error + 'b" where
  "bindE m k = (case m of Inl e \<Rightarrow> Inl e | Inr x \<Rightarrow> k x)"

text \<open>\<open>xs[i]\<close> for a non-negative index: out of range raises.\<close>

definition getitem :: "'a list \<Rightarrow> nat \<Rightarrow> error + 'a" where
  "getitem xs i = (if i < length xs then Inr (xs ! i) else Inl IndexError)"

text \<open>
  \<open>n.to_bytes(length = 4, byteorder = "little")\<close>: the four bytes of \<open>n\<close>, lowest first;
  Python raises \<open>OverflowError\<close> for a negative \<open>n\<close> and for one that needs more than
  four bytes.
\<close>

definition le32 :: "int \<Rightarrow> byte list" where
  "le32 n = [word_of_int n, word_of_int (n div 256),
             word_of_int (n div 65536), word_of_int (n div 16777216)]"

definition to_bytes4 :: "int \<Rightarrow> error + byte list" where
  "to_bytes4 n = (if 0 \<le> n \<and> n < 2 ^ 32 then Inr (le32 n) else Inl OverflowError)"

text \<open>An ASCII string literal as bytes (\<open>b"BKHD"\<close>).\<close>

definition bytes_of :: "string \<Rightarrow> byte list" where
  "bytes_of s = map (\<lambda>c. of_nat (of_char c)) s"

section \<open>Reading the table\<close>

text \<open>
  \<open>str.isspace\<close> on the code points below 256, \<open>str.strip()\<close>, \<open>str.split(sep)\<close> for
  a one-character separator, and \<open>str.upper\<close>. Upper-casing leaves the range for three
  code points (0xB5, 0xDF which becomes \<open>SS\<close>, 0xFF), so its result is a list of code
  points.
\<close>

definition is_space :: "char \<Rightarrow> bool" where
  "is_space c = ((of_char c :: nat) \<in> {9, 10, 11, 12, 13, 28, 29, 30, 31, 32, 133, 160})"

definition strip :: "string \<Rightarrow> string" where
  "strip s = rev (dropWhile is_space (rev (dropWhile is_space s)))"

fun split :: "char \<Rightarrow> string \<Rightarrow> string list" where
  "split sep [] = [[]]"
| "split sep (c # cs) =
     (if c = sep then [] # split sep cs
      else (case split sep cs of
              [] \<Rightarrow> [[c]]
            | w # ws \<Rightarrow> (c # w) # ws))"

definition upper_char :: "char \<Rightarrow> int list" where
  "upper_char c =
     (let n = (of_char c :: int)
      in if (97 \<le> n \<and> n \<le> 122) \<or> (224 \<le> n \<and> n \<le> 254 \<and> n \<noteq> 247) then [n - 32]
         else if n = 181 then [924]
         else if n = 223 then [83, 83]
         else if n = 255 then [376]
         else [n])"

definition upper :: "string \<Rightarrow> int list" where
  "upper s = concat (map upper_char s)"

definition tab :: char where
  "tab = CHR 0x09"

text \<open>
  \<^verbatim>\<open>
  in_sfx_wems : list[str] = []
  in_bgm_wems : list[str] = []
  with open(wem_table, "r") as wem_table_file:
      for i, line in enumerate(wem_table_file):
          line_split = line.strip().split('\t')
          wem_type = line_split[0].upper()
          wem_path = line_split[1]
          match wem_type:
              case "SFX": in_sfx_wems.append(wem_path)
              case "BGM": in_bgm_wems.append(wem_path)
              case _:     print(f"Line {i}: Invalid wem type ({wem_type}).\n")
  \<close>
  The table is the list of lines the file iteration yields. The state of the loop is
  the two lists and what has been printed, kept as the pairs \<open>(i, wem_type)\<close>.
\<close>

type_synonym wem_lists = "string list \<times> string list \<times> (nat \<times> int list) list"

fun read_wem_table :: "nat \<Rightarrow> string list \<Rightarrow> wem_lists \<Rightarrow> error + wem_lists" where
  "read_wem_table i [] st = Inr st"
| "read_wem_table i (line # rest) (in_sfx_wems, in_bgm_wems, printed) =
     (let line_split = split tab (strip line)
      in bindE (getitem line_split 0) (\<lambda>field0.
         let wem_type = upper field0
         in bindE (getitem line_split 1) (\<lambda>wem_path.
            if wem_type = map py_ord ''SFX''
              then read_wem_table (Suc i) rest (in_sfx_wems @ [wem_path], in_bgm_wems, printed)
            else if wem_type = map py_ord ''BGM''
              then read_wem_table (Suc i) rest (in_sfx_wems, in_bgm_wems @ [wem_path], printed)
            else read_wem_table (Suc i) rest
                   (in_sfx_wems, in_bgm_wems, printed @ [(i, wem_type)]))))"

section \<open>Media catalog\<close>

text \<open>
  The three dataclasses. Their fields carry the class's initials, since the classes share
  the field names \<open>hash\<close>, \<open>wem_filename\<close> and \<open>wem_type\<close>. The field \<open>wem_type\<close> only ever
  holds one of the two literals \<open>"SFX"\<close> and \<open>"BGM"\<close>.
\<close>

datatype wem_type = SFX | BGM

record MediaEntry =
  me_hash :: int
  me_wem_filename :: string
  me_offset :: int
  me_size :: int

record SoundEntry =
  se_hash :: int
  se_wem_hash :: int
  se_wem_type :: wem_type

record EventEntry =
  ee_hash :: int
  ee_wem_filename :: string
  ee_wem_type :: wem_type

text \<open>
  \<open>media_file_lookup : dict[int, MediaEntry]\<close> is an association list in insertion
  order; \<open>d[k] = v\<close> is \<open>AList.update\<close>, which replaces the value of a key already present
  and appends a new key. \<open>x in d\<close> compares \<open>x\<close> with the keys, which are all integers: a
  \<open>str\<close> is never equal to an \<open>int\<close>, so the test is false for every string.
\<close>

type_synonym media_dict = "(int \<times> MediaEntry) list"

datatype pyvalue = PyInt int | PyStr string

fun dict_contains :: "pyvalue \<Rightarrow> media_dict \<Rightarrow> bool" where
  "dict_contains (PyInt k) d = (k \<in> set (map fst d))"
| "dict_contains (PyStr s) d = False"

definition dict_get :: "media_dict \<Rightarrow> int \<Rightarrow> error + MediaEntry" where
  "dict_get d k = (case map_of d k of None \<Rightarrow> Inl (KeyError k) | Some v \<Rightarrow> Inr v)"

text \<open>
  \<^verbatim>\<open>
  if exclude_bgm: stored_wems = in_sfx_wems
  else:           stored_wems = in_sfx_wems + in_bgm_wems
  for wem_filename in stored_wems:
      if wem_filename in media_file_lookup:
          print("{wem_filename} is already used.\n")
          exit(1)
      hash = compute_hash(wem_filename)
      media_file_lookup[hash] = MediaEntry(hash = hash, wem_filename = wem_filename,
                                           offset = -1, size = -1)
  sorted_media_hashes = sorted(list(media_file_lookup.keys()))
  \<close>
\<close>

definition stored_wems :: "bool \<Rightarrow> string list \<Rightarrow> string list \<Rightarrow> string list" where
  "stored_wems exclude_bgm in_sfx_wems in_bgm_wems =
     (if exclude_bgm then in_sfx_wems else in_sfx_wems @ in_bgm_wems)"

fun build_media_file_lookup :: "string list \<Rightarrow> media_dict \<Rightarrow> error + media_dict" where
  "build_media_file_lookup [] media_file_lookup = Inr media_file_lookup"
| "build_media_file_lookup (wem_filename # rest) media_file_lookup =
     (if dict_contains (PyStr wem_filename) media_file_lookup then Inl (Exit 1)
      else let hash = compute_hash wem_filename
           in build_media_file_lookup rest
                (AList.update hash
                   \<lparr>me_hash = hash, me_wem_filename = wem_filename,
                    me_offset = - 1, me_size = - 1\<rparr>
                   media_file_lookup))"

definition sorted_media_hashes :: "media_dict \<Rightarrow> int list" where
  "sorted_media_hashes media_file_lookup = sort (map fst media_file_lookup)"

section \<open>The output file\<close>

text \<open>
  The binary file object: its bytes and the file position. \<open>write\<close> overwrites from the
  position on and extends the file where it runs past the end; a write that starts
  beyond the end fills the gap with zero bytes; writing no bytes changes nothing.
  \<open>seek(n, 0)\<close>, \<open>seek(n, 1)\<close> and \<open>seek(n, 2)\<close> set the position from the start, the
  current position and the end; the script only seeks to positions that are not
  negative.
\<close>

record bfile =
  content :: "byte list"
  pos :: nat

definition fwrite :: "byte list \<Rightarrow> bfile \<Rightarrow> bfile" where
  "fwrite bs f =
     (if bs = [] then f
      else let c = content f @ replicate (pos f - length (content f)) 0
           in \<lparr>content = take (pos f) c @ bs @ drop (pos f + length bs) c,
               pos = pos f + length bs\<rparr>)"

definition tell :: "bfile \<Rightarrow> int" where
  "tell f = int (pos f)"

definition seek_set :: "int \<Rightarrow> bfile \<Rightarrow> bfile" where
  "seek_set n f = f\<lparr>pos := nat n\<rparr>"

definition seek_cur :: "int \<Rightarrow> bfile \<Rightarrow> bfile" where
  "seek_cur n f = f\<lparr>pos := nat (int (pos f) + n)\<rparr>"

definition seek_end :: "int \<Rightarrow> bfile \<Rightarrow> bfile" where
  "seek_end n f = f\<lparr>pos := nat (int (length (content f)) + n)\<rparr>"

text \<open>
  A run of consecutive \<open>bnk_file.write(...)\<close> statements is a list of items, one per
  statement, in the order of the source: the bytes to write, or the error that
  evaluating the argument raises. \<open>write_items\<close> performs them in order and stops at the
  first error.
\<close>

type_synonym item = "error + byte list"

fun write_items :: "item list \<Rightarrow> bfile \<Rightarrow> error + bfile" where
  "write_items [] f = Inr f"
| "write_items (Inl e # rest) f = Inl e"
| "write_items (Inr bs # rest) f = write_items rest (fwrite bs f)"

section \<open>Chunk writer: BKHD, DIDX and DATA\<close>

text \<open>Lines 114 to 121: the bank header.\<close>

definition bkhd_items :: "string \<Rightarrow> item list" where
  "bkhd_items bnk_out =
     [Inr (bytes_of ''BKHD''),
      to_bytes4 0x18,
      to_bytes4 140,
      to_bytes4 (compute_hash bnk_out),
      to_bytes4 (compute_hash ''SFX''),
      to_bytes4 16,
      to_bytes4 11146,
      to_bytes4 0]"

text \<open>
  Lines 138 to 150: the loop that streams the clips. The file system is a function from
  a path to the bytes of the file there, \<open>None\<close> where \<open>open\<close> fails. The state of the
  loop is the catalog (whose entries the loop updates), \<open>wem_offset\<close> and the file.
  \<^verbatim>\<open>
  for media_hash in sorted_media_hashes:
      media_entry = media_file_lookup[media_hash]
      if (wem_offset % 8) != 0:
          bnk_file.write(bytes([0] * (wem_offset % 8)))
          wem_offset += wem_offset % 8
      with open(media_entry.wem_filename, "rb") as wem_file:
          bnk_file.write(wem_file.read())
          wem_len = wem_file.tell()
      media_entry.offset = wem_offset
      media_entry.size = wem_len
      wem_offset += wem_len
  \<close>
\<close>

type_synonym file_system = "string \<Rightarrow> byte list option"

fun write_data ::
  "file_system \<Rightarrow> int list \<Rightarrow> media_dict \<times> int \<times> bfile \<Rightarrow> error + media_dict \<times> int \<times> bfile"
where
  "write_data fs [] st = Inr st"
| "write_data fs (media_hash # rest) (media_file_lookup, wem_offset, f) =
     bindE (dict_get media_file_lookup media_hash) (\<lambda>media_entry.
       let (f1, wem_offset1) =
             (if wem_offset mod 8 \<noteq> 0
              then (fwrite (replicate (nat (wem_offset mod 8)) 0) f,
                    wem_offset + wem_offset mod 8)
              else (f, wem_offset))
       in case fs (me_wem_filename media_entry) of
            None \<Rightarrow> Inl (FileNotFoundError (me_wem_filename media_entry))
          | Some wem \<Rightarrow>
              let f2 = fwrite wem f1;
                  wem_len = int (length wem);
                  media_entry' = media_entry\<lparr>me_offset := wem_offset1, me_size := wem_len\<rparr>
              in write_data fs rest
                   (AList.update media_hash media_entry' media_file_lookup,
                    wem_offset1 + wem_len, f2))"

text \<open>Lines 159 to 163: one clip-index entry.\<close>

definition media_header_items :: "media_dict \<Rightarrow> int \<Rightarrow> item list" where
  "media_header_items media_file_lookup media_hash =
     (case dict_get media_file_lookup media_hash of
        Inl e \<Rightarrow> [Inl e]
      | Inr media_entry \<Rightarrow>
          [to_bytes4 (me_hash media_entry),
           to_bytes4 (me_offset media_entry),
           to_bytes4 (me_size media_entry)])"

text \<open>
  Lines 124 to 166, the body of \<open>if len(media_file_lookup) > 0\<close>: the DIDX tag and
  length, a seek over the clip index, the DATA chunk, its length written back, the clip
  index written back, and a seek to the end of the file.
\<close>

definition write_media ::
  "file_system \<Rightarrow> media_dict \<Rightarrow> bfile \<Rightarrow> error + media_dict \<times> bfile"
where
  "write_media fs media_file_lookup f0 =
     (let didx_section_size = 12 * int (length media_file_lookup)
      in bindE (write_items [Inr (bytes_of ''DIDX''), to_bytes4 didx_section_size] f0) (\<lambda>f1.
         let didx_return_offset = tell f1;
             f2 = seek_cur didx_section_size f1
         in bindE (write_items [Inr (bytes_of ''DATA'')] f2) (\<lambda>f3.
            let data_size_offset = tell f3
            in bindE (write_items [to_bytes4 0] f3) (\<lambda>f4.
               bindE (write_data fs (sorted_media_hashes media_file_lookup)
                        (media_file_lookup, 0, f4)) (\<lambda>(media_file_lookup', wem_offset, f5).
               let f6 = seek_set data_size_offset f5
               in bindE (write_items [to_bytes4 wem_offset] f6) (\<lambda>f7.
                  let f8 = seek_set didx_return_offset f7
                  in bindE (write_items
                              (concat (map (media_header_items media_file_lookup')
                                         (sorted_media_hashes media_file_lookup))) f8) (\<lambda>f9.
                     Inr (media_file_lookup', seek_end 0 f9))))))))"

section \<open>Hierarchy builder and the HIRC chunk\<close>

text \<open>Lines 172 to 177.\<close>

definition hirc_entry_count :: "string list \<Rightarrow> string list \<Rightarrow> int" where
  "hirc_entry_count in_sfx_wems in_bgm_wems =
     (if length in_sfx_wems > 0 then 1 else 0) +
     (if length in_bgm_wems > 0 then 1 else 0) +
     (1 + 2) * int (length in_sfx_wems) +
     (1 + 4) * int (length in_bgm_wems)"

text \<open>
  Lines 181 to 203. \<open>list.sort(key = ...)\<close> is a stable sort by the key, as
  \<^const>\<open>sort_key\<close> is.
\<close>

definition sound_entry_list :: "string list \<Rightarrow> string list \<Rightarrow> SoundEntry list" where
  "sound_entry_list in_sfx_wems in_bgm_wems =
     sort_key se_hash
       (map (\<lambda>wem_filename.
               \<lparr>se_hash = compute_hash (wem_filename @ ''_sound''),
                se_wem_hash = compute_hash wem_filename,
                se_wem_type = SFX\<rparr>) in_sfx_wems @
        map (\<lambda>wem_filename.
               \<lparr>se_hash = compute_hash (wem_filename @ ''_sound''),
                se_wem_hash = compute_hash wem_filename,
                se_wem_type = BGM\<rparr>) in_bgm_wems)"

definition bnk_bgm_audio_mixer :: "string \<Rightarrow> string" where
  "bnk_bgm_audio_mixer bnk_out = bnk_out @ ''_bgm_mix''"

definition bnk_sfx_audio_mixer :: "string \<Rightarrow> string" where
  "bnk_sfx_audio_mixer bnk_out = bnk_out @ ''_sfx_mix''"

definition mixer_order :: "string \<Rightarrow> (int \<times> wem_type) list" where
  "mixer_order bnk_out =
     sort_key fst
       [(compute_hash (bnk_sfx_audio_mixer bnk_out), SFX),
        (compute_hash (bnk_bgm_audio_mixer bnk_out), BGM)]"

text \<open>
  Each object record is the list of the writes that make it. Lines 214 to 257: a
  CAkSound record of an SFX clip, whose size is read from the catalog.
\<close>

definition cak_sound_sfx :: "media_dict \<Rightarrow> int \<Rightarrow> SoundEntry \<Rightarrow> item list" where
  "cak_sound_sfx media_file_lookup mixer_hash sound_entry =
     [Inr [0x02, 0x32, 0x00, 0x00, 0x00],
      to_bytes4 (se_hash sound_entry),
      Inr [0x01, 0x00, 0x02, 0x00,
           0x00],
      to_bytes4 (se_wem_hash sound_entry),
      bindE (dict_get media_file_lookup (se_wem_hash sound_entry))
        (\<lambda>media_entry. to_bytes4 (me_size media_entry)),
      Inr [0x00,
           0x00,
           0x00,
           0x00,
           0x00,
           0x00],
      to_bytes4 0,
      to_bytes4 mixer_hash,
      Inr [0x00,
           0x00,
           0x00,
           0x00,
           0x00,
           0x00, 0x00, 0x00, 0x00,
           0x00,
           0x01,
           0x01, 0x00,
           0x00,
           0x00,
           0x00,
           0x00,
           0x00, 0x00]]"

text \<open>Lines 259 to 307: the CAkActorMixer record of the SFX category.\<close>

definition cak_actor_mixer_sfx :: "int \<Rightarrow> SoundEntry list \<Rightarrow> item list" where
  "cak_actor_mixer_sfx mixer_hash mixer_sounds =
     (let num_mixer_sounds = int (length mixer_sounds)
      in [Inr [0x07],
          to_bytes4 (0x33 + num_mixer_sounds * 4),
          to_bytes4 mixer_hash,
          Inr [0x00,
               0x00,
               0x00,
               0x00,
               0x00],
          to_bytes4 1584861537,
          to_bytes4 0,
          Inr [0x00,
               0x02,
               0x00,
               0x07,
               0x00, 0x00, 0x20, 0x40,
               0x00, 0x00, 0x70, 0x42,
               0x00,
               0x03,
               0x08,
               0x00,
               0x00, 0x00, 0x00, 0x00,
               0x00,
               0x01,
               0x00, 0x00,
               0x00,
               0x00,
               0x00,
               0x00,
               0x00, 0x00],
          to_bytes4 num_mixer_sounds] @
         map (\<lambda>sound_entry. to_bytes4 (se_hash sound_entry)) mixer_sounds)"

text \<open>
  Lines 311 to 362: a CAkSound record of a BGM clip. A clip whose hash is not a key of
  the catalog gets the size 1024.
\<close>

definition cak_sound_bgm :: "media_dict \<Rightarrow> int \<Rightarrow> SoundEntry \<Rightarrow> item list" where
  "cak_sound_bgm media_file_lookup mixer_hash sound_entry =
     [Inr [0x02, 0x37, 0x00, 0x00, 0x00],
      to_bytes4 (se_hash sound_entry),
      Inr [0x01, 0x00, 0x02, 0x00,
           0x02],
      to_bytes4 (se_wem_hash sound_entry),
      (if dict_contains (PyInt (se_wem_hash sound_entry)) media_file_lookup
       then bindE (dict_get media_file_lookup (se_wem_hash sound_entry))
              (\<lambda>media_entry. to_bytes4 (me_size media_entry))
       else to_bytes4 1024),
      Inr [0x00,
           0x00,
           0x00,
           0x00,
           0x00,
           0x00],
      to_bytes4 0,
      to_bytes4 mixer_hash,
      Inr [0x00,
           0x01,
           0x3A,
           0x00, 0x00, 0x00, 0x00,
           0x00,
           0x00,
           0x00,
           0x00, 0x00, 0x00, 0x00,
           0x00,
           0x01,
           0x00, 0x00,
           0x00,
           0x00,
           0x00,
           0x00,
           0x00, 0x00]]"

text \<open>Lines 364 to 415: the CAkActorMixer record of the BGM category.\<close>

definition cak_actor_mixer_bgm :: "int \<Rightarrow> SoundEntry list \<Rightarrow> item list" where
  "cak_actor_mixer_bgm mixer_hash mixer_sounds =
     (let num_mixer_sounds = int (length mixer_sounds)
      in [Inr [0x07],
          to_bytes4 (0x2E + num_mixer_sounds * 4),
          to_bytes4 mixer_hash,
          Inr [0x00,
               0x00,
               0x00,
               0x00,
               0x00],
          to_bytes4 0,
          to_bytes4 289663270,
          Inr [0x00,
               0x01,
               0x00,
               0x00, 0x00, 0x20, 0xC0,
               0x00,
               0x03,
               0x08,
               0x00,
               0x00, 0x00, 0x00, 0x00,
               0x00,
               0x01,
               0x00, 0x00,
               0x00,
               0x00,
               0x00,
               0x00,
               0x00, 0x00],
          to_bytes4 num_mixer_sounds] @
         map (\<lambda>sound_entry. to_bytes4 (se_hash sound_entry)) mixer_sounds)"

text \<open>
  Lines 205 to 415, one pass of the loop over \<open>mixer_order\<close>: the object records it
  writes, none for a category without sounds, otherwise the sounds of the category and
  then its mixer.
\<close>

definition mixer_objects ::
  "media_dict \<Rightarrow> SoundEntry list \<Rightarrow> int \<times> wem_type \<Rightarrow> item list list"
where
  "mixer_objects media_file_lookup sound_entries m =
     (case m of (mixer_hash, mixer_type) \<Rightarrow>
        let mixer_sounds = filter (\<lambda>x. se_wem_type x = mixer_type) sound_entries;
            num_mixer_sounds = length mixer_sounds
        in if num_mixer_sounds = 0 then []
           else (case mixer_type of
                   SFX \<Rightarrow> map (cak_sound_sfx media_file_lookup mixer_hash) mixer_sounds @
                          [cak_actor_mixer_sfx mixer_hash mixer_sounds]
                 | BGM \<Rightarrow> map (cak_sound_bgm media_file_lookup mixer_hash) mixer_sounds @
                          [cak_actor_mixer_bgm mixer_hash mixer_sounds]))"

text \<open>Lines 418 to 433.\<close>

definition event_entry_list :: "string list \<Rightarrow> string list \<Rightarrow> EventEntry list" where
  "event_entry_list in_sfx_wems in_bgm_wems =
     sort_key ee_hash
       (map (\<lambda>wem_filename.
               \<lparr>ee_hash = compute_hash (wem_filename @ ''_play_event''),
                ee_wem_filename = wem_filename,
                ee_wem_type = SFX\<rparr>) in_sfx_wems @
        map (\<lambda>wem_filename.
               \<lparr>ee_hash = compute_hash (wem_filename @ ''_play_event''),
                ee_wem_filename = wem_filename,
                ee_wem_type = BGM\<rparr>) in_bgm_wems)"

text \<open>
  Lines 440 to 454 and 487 to 501: the CAkActionPlay record, written by the same
  statements in both categories.
\<close>

definition cak_action_play :: "string \<Rightarrow> EventEntry \<Rightarrow> item list" where
  "cak_action_play bnk_out event_entry =
     [Inr [0x03, 0x12, 0x00, 0x00, 0x00],
      to_bytes4 (compute_hash (ee_wem_filename event_entry @ ''_play'')),
      Inr [0x03, 0x04],
      to_bytes4 (compute_hash (ee_wem_filename event_entry @ ''_sound'')),
      Inr [0x00,
           0x00,
           0x00,
           0x04],
      to_bytes4 (compute_hash bnk_out)]"

text \<open>Lines 456 to 460: the CAkEvent record of an SFX clip.\<close>

definition cak_event_sfx :: "EventEntry \<Rightarrow> item list" where
  "cak_event_sfx event_entry =
     [Inr [0x04, 0x09, 0x00, 0x00, 0x00],
      to_bytes4 (ee_hash event_entry),
      Inr [0x01],
      to_bytes4 (compute_hash (ee_wem_filename event_entry @ ''_play''))]"

text \<open>Lines 464 to 485: the first CAkActionStop record of a BGM clip.\<close>

definition cak_action_stop1 :: "EventEntry \<Rightarrow> item list" where
  "cak_action_stop1 event_entry =
     [Inr [0x03, 0x15, 0x00, 0x00, 0x00],
      to_bytes4 (compute_hash (ee_wem_filename event_entry @ ''_stop1'')),
      Inr [0x02, 0x01],
      to_bytes4 289663270,
      Inr [0x00,
           0x01,
           0x10,
           0xF4, 0x01, 0x00, 0x00,
           0x00,
           0x04,
           0x06,
           0x00]]"

text \<open>Lines 503 to 520: the second CAkActionStop record of a BGM clip.\<close>

definition cak_action_stop2 :: "EventEntry \<Rightarrow> item list" where
  "cak_action_stop2 event_entry =
     [Inr [0x03, 0x10, 0x00, 0x00, 0x00],
      to_bytes4 (compute_hash (ee_wem_filename event_entry @ ''_stop2'')),
      Inr [0x02, 0x01],
      to_bytes4 920168426,
      Inr [0x00,
           0x00,
           0x00,
           0x04,
           0x06,
           0x00]]"

text \<open>Lines 522 to 528: the CAkEvent record of a BGM clip.\<close>

definition cak_event_bgm :: "EventEntry \<Rightarrow> item list" where
  "cak_event_bgm event_entry =
     [Inr [0x04, 0x11, 0x00, 0x00, 0x00],
      to_bytes4 (ee_hash event_entry),
      Inr [0x03],
      to_bytes4 (compute_hash (ee_wem_filename event_entry @ ''_stop1'')),
      to_bytes4 (compute_hash (ee_wem_filename event_entry @ ''_play'')),
      to_bytes4 (compute_hash (ee_wem_filename event_entry @ ''_stop2''))]"

text \<open>Lines 435 to 528, one pass of the loop over \<open>event_entry_list\<close>.\<close>

definition event_objects :: "string \<Rightarrow> EventEntry \<Rightarrow> item list list" where
  "event_objects bnk_out event_entry =
     (case ee_wem_type event_entry of
        SFX \<Rightarrow> [cak_action_play bnk_out event_entry,
                cak_event_sfx event_entry]
      | BGM \<Rightarrow> [cak_action_stop1 event_entry,
                cak_action_play bnk_out event_entry,
                cak_action_stop2 event_entry,
                cak_event_bgm event_entry])"

text \<open>
  All object records of the HIRC chunk in the order the two loops write them, and lines
  169 to 532: the tag, the reserved length, the object count, the records, and the
  length written back.
\<close>

definition hirc_objects ::
  "string \<Rightarrow> string list \<Rightarrow> string list \<Rightarrow> media_dict \<Rightarrow> item list list"
where
  "hirc_objects bnk_out in_sfx_wems in_bgm_wems media_file_lookup =
     concat (map (mixer_objects media_file_lookup (sound_entry_list in_sfx_wems in_bgm_wems))
               (mixer_order bnk_out)) @
     concat (map (event_objects bnk_out) (event_entry_list in_sfx_wems in_bgm_wems))"

definition write_hirc ::
  "string \<Rightarrow> string list \<Rightarrow> string list \<Rightarrow> media_dict \<Rightarrow> bfile \<Rightarrow> error + bfile"
where
  "write_hirc bnk_out in_sfx_wems in_bgm_wems media_file_lookup f0 =
     bindE (write_items [Inr (bytes_of ''HIRC'')] f0) (\<lambda>f1.
       let HIRC_len_location = tell f1
       in bindE (write_items
                   [to_bytes4 0,
                    to_bytes4 (hirc_entry_count in_sfx_wems in_bgm_wems)] f1) (\<lambda>f2.
          bindE (write_items
                   (concat (hirc_objects bnk_out in_sfx_wems in_bgm_wems media_file_lookup))
                   f2) (\<lambda>f3.
          let HIRC_end_location = tell f3;
              f4 = seek_set HIRC_len_location f3
          in write_items [to_bytes4 (HIRC_end_location - HIRC_len_location - 4)] f4)))"

section \<open>The whole run\<close>

text \<open>
  Lines 112 to 532: the output file is opened (created empty), the header is written,
  the DIDX and DATA chunks if the catalog is not empty, and the HIRC chunk.
\<close>

definition write_bnk ::
  "file_system \<Rightarrow> string \<Rightarrow> string list \<Rightarrow> string list \<Rightarrow> media_dict \<Rightarrow> error + bfile"
where
  "write_bnk fs bnk_out in_sfx_wems in_bgm_wems media_file_lookup =
     bindE (write_items (bkhd_items bnk_out) \<lparr>content = [], pos = 0\<rparr>) (\<lambda>f1.
     bindE (if length media_file_lookup > 0 then write_media fs media_file_lookup f1
            else Inr (media_file_lookup, f1)) (\<lambda>(media_file_lookup', f2).
     write_hirc bnk_out in_sfx_wems in_bgm_wems media_file_lookup' f2))"

text \<open>
  The outcome of a run: \<open>Aborted\<close> when the script stops before it opens the output
  file, \<open>Failed\<close> when it stops after that (the file exists and is left partly written;
  its bytes are not tracked), \<open>Written\<close> with the bytes of the finished file. The
  arguments are the file system holding the clips, the \<open>--exclude_bgm\<close> flag, the
  output path and the lines of the table. The output path is taken to be writable and
  not one of the clips; the optional header file of event names is not modelled.
\<close>

datatype outcome = Aborted error | Failed error | Written "byte list"

definition run :: "file_system \<Rightarrow> bool \<Rightarrow> string \<Rightarrow> string list \<Rightarrow> outcome" where
  "run fs exclude_bgm bnk_out wem_table =
     (case read_wem_table 0 wem_table ([], [], []) of
        Inl e \<Rightarrow> Aborted e
      | Inr (in_sfx_wems, in_bgm_wems, printed) \<Rightarrow>
          (case build_media_file_lookup
                  (stored_wems exclude_bgm in_sfx_wems in_bgm_wems) [] of
             Inl e \<Rightarrow> Aborted e
           | Inr media_file_lookup \<Rightarrow>
               (case write_bnk fs bnk_out in_sfx_wems in_bgm_wems media_file_lookup of
                  Inl e \<Rightarrow> Failed e
                | Inr f \<Rightarrow> Written (content f))))"

section \<open>Reading the output back\<close>

text \<open>
  The bytes a list of items writes when no item raises, and the error of the first item
  that does.
\<close>

fun collect :: "item list \<Rightarrow> error + byte list" where
  "collect [] = Inr []"
| "collect (Inl e # rest) = Inl e"
| "collect (Inr bs # rest) = bindE (collect rest) (\<lambda>r. Inr (bs @ r))"

text \<open>The file position is at the end of the file.\<close>

definition at_end :: "bfile \<Rightarrow> bool" where
  "at_end f \<longleftrightarrow> pos f = length (content f)"

text \<open>
  Two states of the catalog hold the same clips: the same keys in the same order, each
  with the same hash and file name (the offsets and sizes may differ).
\<close>

definition entry_id :: "MediaEntry \<Rightarrow> int \<times> string" where
  "entry_id e = (me_hash e, me_wem_filename e)"

definition same_clips :: "media_dict \<Rightarrow> media_dict \<Rightarrow> bool" where
  "same_clips d d' \<longleftrightarrow>
     map (\<lambda>(k, e). (k, entry_id e)) d' = map (\<lambda>(k, e). (k, entry_id e)) d"

text \<open>The bytes of a DATA body made of clips, each after its padding.\<close>

definition segments_bytes :: "(nat \<times> byte list) list \<Rightarrow> byte list" where
  "segments_bytes segs = concat (map (\<lambda>(p, wem). replicate p 0 @ wem) segs)"

text \<open>A value that fits an unsigned 32-bit field, and the 12 bytes of a clip-index entry.\<close>

definition u32 :: "int \<Rightarrow> bool" where
  "u32 n \<longleftrightarrow> 0 \<le> n \<and> n < 2 ^ 32"

definition didx_entry :: "MediaEntry \<Rightarrow> byte list" where
  "didx_entry e = le32 (me_hash e) @ le32 (me_offset e) @ le32 (me_size e)"

text \<open>
  The writer without the file: the same steps in the same order, each chunk body built
  as a list of bytes and the chunk put together from its tag, length and body. The
  loop over the clips returns the catalog, \<open>wem_offset\<close> and the bytes written so far.
\<close>

fun data_bytes ::
  "file_system \<Rightarrow> int list \<Rightarrow> media_dict \<times> int \<times> byte list
     \<Rightarrow> error + media_dict \<times> int \<times> byte list"
where
  "data_bytes fs [] st = Inr st"
| "data_bytes fs (h # rest) (lk, off, acc) =
     (case map_of lk h of
        None \<Rightarrow> Inl (KeyError h)
      | Some e \<Rightarrow>
          (case fs (me_wem_filename e) of
             None \<Rightarrow> Inl (FileNotFoundError (me_wem_filename e))
           | Some wem \<Rightarrow>
               data_bytes fs rest
                 (AList.update h
                    (e\<lparr>me_offset := off + (if off mod 8 \<noteq> 0 then off mod 8 else 0),
                       me_size := int (length wem)\<rparr>) lk,
                  off + (if off mod 8 \<noteq> 0 then off mod 8 else 0) + int (length wem),
                  acc @ replicate (if off mod 8 \<noteq> 0 then nat (off mod 8) else 0) 0 @ wem)))"

definition media_bytes :: "file_system \<Rightarrow> media_dict \<Rightarrow> error + media_dict \<times> byte list" where
  "media_bytes fs lk =
     bindE (to_bytes4 (12 * int (length lk))) (\<lambda>size_field.
     bindE (data_bytes fs (sorted_media_hashes lk) (lk, 0, [])) (\<lambda>(lk', off, body).
     bindE (to_bytes4 off) (\<lambda>data_size_field.
     bindE (collect (concat (map (media_header_items lk') (sorted_media_hashes lk))))
       (\<lambda>entries.
     Inr (lk', bytes_of ''DIDX'' @ size_field @ entries @
               bytes_of ''DATA'' @ data_size_field @ body)))))"

definition hirc_bytes ::
  "string \<Rightarrow> string list \<Rightarrow> string list \<Rightarrow> media_dict \<Rightarrow> error + byte list"
where
  "hirc_bytes bnk_out in_sfx_wems in_bgm_wems lk =
     bindE (to_bytes4 (hirc_entry_count in_sfx_wems in_bgm_wems)) (\<lambda>count_field.
     bindE (collect (concat (hirc_objects bnk_out in_sfx_wems in_bgm_wems lk))) (\<lambda>objects.
     bindE (to_bytes4 (4 + int (length objects))) (\<lambda>size_field.
     Inr (bytes_of ''HIRC'' @ size_field @ count_field @ objects))))"

definition bnk_bytes ::
  "file_system \<Rightarrow> string \<Rightarrow> string list \<Rightarrow> string list \<Rightarrow> media_dict \<Rightarrow> error + byte list"
where
  "bnk_bytes fs bnk_out in_sfx_wems in_bgm_wems lk =
     bindE (collect (bkhd_items bnk_out)) (\<lambda>header.
     bindE (if length lk > 0 then media_bytes fs lk else Inr (lk, [])) (\<lambda>(lk', media).
     bindE (hirc_bytes bnk_out in_sfx_wems in_bgm_wems lk') (\<lambda>hirc.
     Inr (header @ media @ hirc))))"

section \<open>What a table line says\<close>

text \<open>
  The category token and the path of a line, as the reading loop takes them, and the
  three results of the loop written as filters over the table: the paths of the SFX
  lines, the paths of the BGM lines, and the lines with any other token, each with its
  index.
\<close>

definition wem_type_of :: "string \<Rightarrow> int list" where
  "wem_type_of line = upper (hd (split tab (strip line)))"

definition wem_path_of :: "string \<Rightarrow> string" where
  "wem_path_of line = split tab (strip line) ! 1"

definition sfx_lines :: "string list \<Rightarrow> string list" where
  "sfx_lines wem_table =
     map wem_path_of (filter (\<lambda>line. wem_type_of line = map py_ord ''SFX'') wem_table)"

definition bgm_lines :: "string list \<Rightarrow> string list" where
  "bgm_lines wem_table =
     map wem_path_of
       (filter (\<lambda>line. wem_type_of line \<noteq> map py_ord ''SFX''
                        \<and> wem_type_of line = map py_ord ''BGM'') wem_table)"

definition invalid_lines :: "nat \<Rightarrow> string list \<Rightarrow> (nat \<times> int list) list" where
  "invalid_lines i wem_table =
     map (\<lambda>(j, line). (j, wem_type_of line))
       (filter (\<lambda>(j, line). wem_type_of line \<noteq> map py_ord ''SFX''
                            \<and> wem_type_of line \<noteq> map py_ord ''BGM'')
          (enumerate i wem_table))"


section \<open>Example inputs\<close>

text \<open>
  A file system with two clips of three bytes each, some small tables, and the bytes the
  script writes for them with the output path \<open>o\<close>.
\<close>

definition example_fs :: file_system where
  "example_fs = [''a'' \<mapsto> [1, 2, 3], ''b'' \<mapsto> [4, 5, 6]]"

definition example_table :: "string list" where
  "example_table =
     [''SFX'' @ [tab] @ ''a'' @ [CHR 0x0A],
      ''BGM'' @ [tab] @ ''b'' @ [CHR 0x0A]]"

definition duplicate_table :: "string list" where
  "duplicate_table =
     [''SFX'' @ [tab] @ ''a'' @ [CHR 0x0A],
      ''SFX'' @ [tab] @ ''a'' @ [CHR 0x0A]]"



definition shared_path_table :: "string list" where
  "shared_path_table =
     [''SFX'' @ [tab] @ ''a'' @ [CHR 0x0A],
      ''BGM'' @ [tab] @ ''a'' @ [CHR 0x0A]]"

definition short_line_table :: "string list" where
  "short_line_table =
     [''SFX'' @ [tab] @ ''a'' @ [CHR 0x0A],
      ''BGM'' @ [CHR 0x0A]]"

definition example_output :: "byte list" where
  "example_output =
     [66, 75, 72, 68, 24, 0, 0, 0, 140, 0, 0, 0, 112, 93, 12, 5, 62, 93, 112, 23, 16,
      0, 0, 0, 138, 43, 0, 0, 0, 0, 0, 0, 68, 73, 68, 88, 24, 0, 0, 0, 125, 93, 12, 5,
      0, 0, 0, 0, 3, 0, 0, 0, 126, 93, 12, 5, 6, 0, 0, 0, 3, 0, 0, 0, 68, 65, 84, 65,
      9, 0, 0, 0, 4, 5, 6, 0, 0, 0, 1, 2, 3, 72, 73, 82, 67, 107, 1, 0, 0, 10, 0, 0, 0,
      2, 50, 0, 0, 0, 34, 56, 94, 127, 1, 0, 2, 0, 0, 126, 93, 12, 5, 3, 0, 0, 0, 0, 0,
      0, 0, 0, 0, 0, 0, 0, 0, 95, 21, 35, 105, 0, 0, 0, 0, 0, 0, 0, 0, 0, 0, 1, 1, 0,
      0, 0, 0, 0, 0, 0, 7, 55, 0, 0, 0, 95, 21, 35, 105, 0, 0, 0, 0, 0, 97, 17, 119,
      94, 0, 0, 0, 0, 0, 2, 0, 7, 0, 0, 32, 64, 0, 0, 112, 66, 0, 3, 8, 0, 0, 0, 0, 0,
      0, 1, 0, 0, 0, 0, 0, 0, 0, 0, 1, 0, 0, 0, 34, 56, 94, 127, 2, 55, 0, 0, 0, 221,
      82, 27, 115, 1, 0, 2, 0, 2, 125, 93, 12, 5, 3, 0, 0, 0, 0, 0, 0, 0, 0, 0, 0, 0,
      0, 0, 4, 139, 21, 149, 0, 1, 58, 0, 0, 0, 0, 0, 0, 0, 0, 0, 0, 0, 0, 1, 0, 0, 0,
      0, 0, 0, 0, 0, 7, 50, 0, 0, 0, 4, 139, 21, 149, 0, 0, 0, 0, 0, 0, 0, 0, 0, 38,
      233, 67, 17, 0, 1, 0, 0, 0, 32, 192, 0, 3, 8, 0, 0, 0, 0, 0, 0, 1, 0, 0, 0, 0, 0,
      0, 0, 0, 1, 0, 0, 0, 221, 82, 27, 115, 3, 21, 0, 0, 0, 65, 245, 17, 109, 2, 1,
      38, 233, 67, 17, 0, 1, 16, 244, 1, 0, 0, 0, 4, 6, 0, 3, 18, 0, 0, 0, 238, 20,
      159, 83, 3, 4, 221, 82, 27, 115, 0, 0, 0, 4, 112, 93, 12, 5, 3, 16, 0, 0, 0, 66,
      245, 17, 109, 2, 1, 234, 167, 216, 54, 0, 0, 0, 4, 6, 0, 4, 17, 0, 0, 0, 127, 34,
      67, 24, 3, 65, 245, 17, 109, 238, 20, 159, 83, 66, 245, 17, 109, 3, 18, 0, 0, 0,
      127, 194, 140, 35, 3, 4, 34, 56, 94, 127, 0, 0, 0, 4, 112, 93, 12, 5, 4, 9, 0, 0,
      0, 150, 213, 189, 173, 1, 127, 194, 140, 35]"

definition duplicate_output :: "byte list" where
  "duplicate_output =
     [66, 75, 72, 68, 24, 0, 0, 0, 140, 0, 0, 0, 112, 93, 12, 5, 62, 93, 112, 23, 16,
      0, 0, 0, 138, 43, 0, 0, 0, 0, 0, 0, 68, 73, 68, 88, 12, 0, 0, 0, 126, 93, 12, 5,
      0, 0, 0, 0, 3, 0, 0, 0, 68, 65, 84, 65, 3, 0, 0, 0, 1, 2, 3, 72, 73, 82, 67, 252,
      0, 0, 0, 7, 0, 0, 0, 2, 50, 0, 0, 0, 34, 56, 94, 127, 1, 0, 2, 0, 0, 126, 93, 12,
      5, 3, 0, 0, 0, 0, 0, 0, 0, 0, 0, 0, 0, 0, 0, 95, 21, 35, 105, 0, 0, 0, 0, 0, 0,
      0, 0, 0, 0, 1, 1, 0, 0, 0, 0, 0, 0, 0, 2, 50, 0, 0, 0, 34, 56, 94, 127, 1, 0, 2,
      0, 0, 126, 93, 12, 5, 3, 0, 0, 0, 0, 0, 0, 0, 0, 0, 0, 0, 0, 0, 95, 21, 35, 105,
      0, 0, 0, 0, 0, 0, 0, 0, 0, 0, 1, 1, 0, 0, 0, 0, 0, 0, 0, 7, 59, 0, 0, 0, 95, 21,
      35, 105, 0, 0, 0, 0, 0, 97, 17, 119, 94, 0, 0, 0, 0, 0, 2, 0, 7, 0, 0, 32, 64, 0,
      0, 112, 66, 0, 3, 8, 0, 0, 0, 0, 0, 0, 1, 0, 0, 0, 0, 0, 0, 0, 0, 2, 0, 0, 0, 34,
      56, 94, 127, 34, 56, 94, 127, 3, 18, 0, 0, 0, 127, 194, 140, 35, 3, 4, 34, 56,
      94, 127, 0, 0, 0, 4, 112, 93, 12, 5, 4, 9, 0, 0, 0, 150, 213, 189, 173, 1, 127,
      194, 140, 35, 3, 18, 0, 0, 0, 127, 194, 140, 35, 3, 4, 34, 56, 94, 127, 0, 0, 0,
      4, 112, 93, 12, 5, 4, 9, 0, 0, 0, 150, 213, 189, 173, 1, 127, 194, 140, 35]"


definition shared_output :: "byte list" where
  "shared_output =
     [66, 75, 72, 68, 24, 0, 0, 0, 140, 0, 0, 0, 112, 93, 12, 5, 62, 93, 112, 23, 16,
      0, 0, 0, 138, 43, 0, 0, 0, 0, 0, 0, 68, 73, 68, 88, 12, 0, 0, 0, 126, 93, 12, 5,
      0, 0, 0, 0, 3, 0, 0, 0, 68, 65, 84, 65, 3, 0, 0, 0, 1, 2, 3, 72, 73, 82, 67, 107,
      1, 0, 0, 10, 0, 0, 0, 2, 50, 0, 0, 0, 34, 56, 94, 127, 1, 0, 2, 0, 0, 126, 93,
      12, 5, 3, 0, 0, 0, 0, 0, 0, 0, 0, 0, 0, 0, 0, 0, 95, 21, 35, 105, 0, 0, 0, 0, 0,
      0, 0, 0, 0, 0, 1, 1, 0, 0, 0, 0, 0, 0, 0, 7, 55, 0, 0, 0, 95, 21, 35, 105, 0, 0,
      0, 0, 0, 97, 17, 119, 94, 0, 0, 0, 0, 0, 2, 0, 7, 0, 0, 32, 64, 0, 0, 112, 66, 0,
      3, 8, 0, 0, 0, 0, 0, 0, 1, 0, 0, 0, 0, 0, 0, 0, 0, 1, 0, 0, 0, 34, 56, 94, 127,
      2, 55, 0, 0, 0, 34, 56, 94, 127, 1, 0, 2, 0, 2, 126, 93, 12, 5, 3, 0, 0, 0, 0, 0,
      0, 0, 0, 0, 0, 0, 0, 0, 4, 139, 21, 149, 0, 1, 58, 0, 0, 0, 0, 0, 0, 0, 0, 0, 0,
      0, 0, 1, 0, 0, 0, 0, 0, 0, 0, 0, 7, 50, 0, 0, 0, 4, 139, 21, 149, 0, 0, 0, 0, 0,
      0, 0, 0, 0, 38, 233, 67, 17, 0, 1, 0, 0, 0, 32, 192, 0, 3, 8, 0, 0, 0, 0, 0, 0,
      1, 0, 0, 0, 0, 0, 0, 0, 0, 1, 0, 0, 0, 34, 56, 94, 127, 3, 18, 0, 0, 0, 127, 194,
      140, 35, 3, 4, 34, 56, 94, 127, 0, 0, 0, 4, 112, 93, 12, 5, 4, 9, 0, 0, 0, 150,
      213, 189, 173, 1, 127, 194, 140, 35, 3, 21, 0, 0, 0, 22, 177, 194, 188, 2, 1, 38,
      233, 67, 17, 0, 1, 16, 244, 1, 0, 0, 0, 4, 6, 0, 3, 18, 0, 0, 0, 127, 194, 140,
      35, 3, 4, 34, 56, 94, 127, 0, 0, 0, 4, 112, 93, 12, 5, 3, 16, 0, 0, 0, 21, 177,
      194, 188, 2, 1, 234, 167, 216, 54, 0, 0, 0, 4, 6, 0, 4, 17, 0, 0, 0, 150, 213,
      189, 173, 3, 22, 177, 194, 188, 127, 194, 140, 35, 21, 177, 194, 188]"

definition excluded_output :: "byte list" where
  "excluded_output =
     [66, 75, 72, 68, 24, 0, 0, 0, 140, 0, 0, 0, 112, 93, 12, 5, 62, 93, 112, 23, 16,
      0, 0, 0, 138, 43, 0, 0, 0, 0, 0, 0, 68, 73, 68, 88, 12, 0, 0, 0, 126, 93, 12, 5,
      0, 0, 0, 0, 3, 0, 0, 0, 68, 65, 84, 65, 3, 0, 0, 0, 1, 2, 3, 72, 73, 82, 67, 107,
      1, 0, 0, 10, 0, 0, 0, 2, 50, 0, 0, 0, 34, 56, 94, 127, 1, 0, 2, 0, 0, 126, 93,
      12, 5, 3, 0, 0, 0, 0, 0, 0, 0, 0, 0, 0, 0, 0, 0, 95, 21, 35, 105, 0, 0, 0, 0, 0,
      0, 0, 0, 0, 0, 1, 1, 0, 0, 0, 0, 0, 0, 0, 7, 55, 0, 0, 0, 95, 21, 35, 105, 0, 0,
      0, 0, 0, 97, 17, 119, 94, 0, 0, 0, 0, 0, 2, 0, 7, 0, 0, 32, 64, 0, 0, 112, 66, 0,
      3, 8, 0, 0, 0, 0, 0, 0, 1, 0, 0, 0, 0, 0, 0, 0, 0, 1, 0, 0, 0, 34, 56, 94, 127,
      2, 55, 0, 0, 0, 221, 82, 27, 115, 1, 0, 2, 0, 2, 125, 93, 12, 5, 0, 4, 0, 0, 0,
      0, 0, 0, 0, 0, 0, 0, 0, 0, 4, 139, 21, 149, 0, 1, 58, 0, 0, 0, 0, 0, 0, 0, 0, 0,
      0, 0, 0, 1, 0, 0, 0, 0, 0, 0, 0, 0, 7, 50, 0, 0, 0, 4, 139, 21, 149, 0, 0, 0, 0,
      0, 0, 0, 0, 0, 38, 233, 67, 17, 0, 1, 0, 0, 0, 32, 192, 0, 3, 8, 0, 0, 0, 0, 0,
      0, 1, 0, 0, 0, 0, 0, 0, 0, 0, 1, 0, 0, 0, 221, 82, 27, 115, 3, 21, 0, 0, 0, 65,
      245, 17, 109, 2, 1, 38, 233, 67, 17, 0, 1, 16, 244, 1, 0, 0, 0, 4, 6, 0, 3, 18,
      0, 0, 0, 238, 20, 159, 83, 3, 4, 221, 82, 27, 115, 0, 0, 0, 4, 112, 93, 12, 5, 3,
      16, 0, 0, 0, 66, 245, 17, 109, 2, 1, 234, 167, 216, 54, 0, 0, 0, 4, 6, 0, 4, 17,
      0, 0, 0, 127, 34, 67, 24, 3, 65, 245, 17, 109, 238, 20, 159, 83, 66, 245, 17,
      109, 3, 18, 0, 0, 0, 127, 194, 140, 35, 3, 4, 34, 56, 94, 127, 0, 0, 0, 4, 112,
      93, 12, 5, 4, 9, 0, 0, 0, 150, 213, 189, 173, 1, 127, 194, 140, 35]"

section \<open>Parsing the output file\<close>

text \<open>
  Readers for the container format, used to state what a produced file holds: an
  unsigned 32-bit little-endian field at an offset, the sequence of chunks (a four-byte
  tag, a length field and as many body bytes as the field declares), the body of the
  chunk with a given tag, and the entries of a clip index (three fields of four bytes).
\<close>

fun from_le32 :: "byte list \<Rightarrow> int" where
  "from_le32 (b0 # b1 # b2 # b3 # rest) =
     uint b0 + 256 * uint b1 + 65536 * uint b2 + 16777216 * uint b3"
| "from_le32 _ = 0"

definition u32_at :: "byte list \<Rightarrow> nat \<Rightarrow> int" where
  "u32_at bs i = from_le32 (drop i bs)"

function parse_chunks :: "byte list \<Rightarrow> (byte list \<times> byte list) list option" where
  "parse_chunks bs =
     (if bs = [] then Some []
      else if length bs < 8 then None
      else let n = nat (u32_at bs 4)
           in if length bs < 8 + n then None
              else map_option ((#) (take 4 bs, take n (drop 8 bs)))
                     (parse_chunks (drop (8 + n) bs)))"
  by pat_completeness auto
termination
  by (relation "measure length") auto

definition chunk_body :: "string \<Rightarrow> byte list \<Rightarrow> byte list option" where
  "chunk_body tag bs =
     (case parse_chunks bs of None \<Rightarrow> None | Some chunks \<Rightarrow> map_of chunks (bytes_of tag))"

function decode_didx :: "byte list \<Rightarrow> (int \<times> int \<times> int) list" where
  "decode_didx bs =
     (if length bs < 12 then []
      else (u32_at bs 0, u32_at bs 4, u32_at bs 8) # decode_didx (drop 12 bs))"
  by pat_completeness auto
termination
  by (relation "measure length") auto

definition didx_entries :: "byte list \<Rightarrow> (int \<times> int \<times> int) list" where
  "didx_entries bs =
     (case chunk_body ''DIDX'' bs of None \<Rightarrow> [] | Some body \<Rightarrow> decode_didx body)"

text \<open>
  A chunk as the format defines it, the body of the bank header, and the facts about the
  clip index and the blob area that hold for a produced file: the catalog after the
  clips were streamed (\<open>lk'\<close>) holds the same clips as before (\<open>lk\<close>), the entries are
  the catalog's entries in the order of the sorted hashes, every field fits 32 bits, and
  the blob area is made of the clips' files in that order, each after its padding.
\<close>

definition chunk :: "string \<Rightarrow> byte list \<Rightarrow> byte list" where
  "chunk tag body = bytes_of tag @ le32 (int (length body)) @ body"

definition bkhd_body :: "string \<Rightarrow> byte list" where
  "bkhd_body bnk_out =
     le32 140 @ le32 (compute_hash bnk_out) @ le32 (compute_hash ''SFX'') @
     le32 16 @ le32 11146 @ le32 0"

definition media_layout ::
  "file_system \<Rightarrow> media_dict \<Rightarrow> media_dict \<Rightarrow> MediaEntry list \<Rightarrow> (nat \<times> byte list) list \<Rightarrow> bool"
where
  "media_layout fs lk lk' es segs \<longleftrightarrow>
     same_clips lk lk'
     \<and> length es = length lk
     \<and> map (map_of lk') (sorted_media_hashes lk) = map Some es
     \<and> list_all (\<lambda>e. u32 (me_hash e) \<and> u32 (me_offset e) \<and> u32 (me_size e)) es
     \<and> u32 (12 * int (length lk))
     \<and> u32 (int (length (segments_bytes segs)))
     \<and> map (\<lambda>h. map_option (\<lambda>e. fs (me_wem_filename e)) (map_of lk h))
          (sorted_media_hashes lk)
         = map (\<lambda>(p, wem). Some (Some wem)) segs"

text \<open>
  The HIRC body is an object count followed by object records, each a type byte, the
  length of its body as an unsigned 32-bit field, and the body. A record is read back as
  the fields the claims speak of: for a sound (type 2) its identifier, stream type,
  clip identifier, size and parent; for an actor-mixer (type 7) its identifier; for an
  action (type 3) its identifier, its kind (the action type 0x0403 is Play, 0x0102 is
  Stop) and its target; for an event (type 4) its identifier and the identifiers of its
  actions.
\<close>

function parse_records :: "byte list \<Rightarrow> (byte \<times> byte list) list option" where
  "parse_records bs =
     (if bs = [] then Some []
      else if length bs < 5 then None
      else let n = nat (u32_at bs 1)
           in if length bs < 5 + n then None
              else map_option ((#) (hd bs, take n (drop 5 bs)))
                     (parse_records (drop (5 + n) bs)))"
  by pat_completeness auto
termination
  by (relation "measure length") auto

datatype action_kind = Play | Stop | OtherAction

datatype hirc_object =
    Sound int int int int int
  | ActorMixer int
  | Action int action_kind int
  | Event int "int list"
  | OtherObject

fun u32_list :: "nat \<Rightarrow> byte list \<Rightarrow> int list" where
  "u32_list 0 bs = []"
| "u32_list (Suc n) bs = from_le32 bs # u32_list n (drop 4 bs)"

definition u8_at :: "byte list \<Rightarrow> nat \<Rightarrow> int" where
  "u8_at bs i = (case drop i bs of [] \<Rightarrow> 0 | b # rest \<Rightarrow> uint b)"

definition decode_action_kind :: "byte list \<Rightarrow> action_kind" where
  "decode_action_kind bs =
     (if take 2 bs = [0x03, 0x04] then Play
      else if take 2 bs = [0x02, 0x01] then Stop
      else OtherAction)"

definition decode_object :: "byte \<times> byte list \<Rightarrow> hirc_object" where
  "decode_object r =
     (case r of (t, body) \<Rightarrow>
        if t = 0x02
        then Sound (u32_at body 0) (u8_at body 8) (u32_at body 9) (u32_at body 13)
               (u32_at body 27)
        else if t = 0x07 then ActorMixer (u32_at body 0)
        else if t = 0x03
        then Action (u32_at body 0) (decode_action_kind (drop 4 body)) (u32_at body 6)
        else if t = 0x04
        then Event (u32_at body 0) (u32_list (nat (u8_at body 4)) (drop 5 body))
        else OtherObject)"

definition hirc_count :: "byte list \<Rightarrow> int option" where
  "hirc_count bs = map_option (\<lambda>body. u32_at body 0) (chunk_body ''HIRC'' bs)"

definition hirc_view :: "byte list \<Rightarrow> hirc_object list option" where
  "hirc_view bs =
     (case chunk_body ''HIRC'' bs of
        None \<Rightarrow> None
      | Some body \<Rightarrow> map_option (map decode_object) (parse_records (drop 4 body)))"

text \<open>
  The bytes of one record, when every write of it succeeds, form a record whose length
  field is the length of its body and which is read back as the given object.
\<close>

definition wf_record :: "byte list \<Rightarrow> bool" where
  "wf_record r \<longleftrightarrow> 5 \<le> length r \<and> u32_at r 1 = int (length r) - 5"

definition reads_as :: "item list \<Rightarrow> hirc_object \<Rightarrow> bool" where
  "reads_as items v =
     (case collect items of
        Inl e \<Rightarrow> True
      | Inr r \<Rightarrow> wf_record r \<and> decode_object (hd r, drop 5 r) = v)"

text \<open>
  What the records written by the two loops say: a sound of a category under its mixer
  (the size is the catalog's, or 1024 for a BGM clip whose hash is not a key of the
  catalog), the records of one pass of the loop over \<open>mixer_order\<close>, and the records of
  one pass of the loop over \<open>event_entry_list\<close>.
\<close>

definition sound_view :: "media_dict \<Rightarrow> int \<Rightarrow> wem_type \<Rightarrow> SoundEntry \<Rightarrow> hirc_object" where
  "sound_view media_file_lookup mixer_hash mixer_type sound_entry =
     Sound (se_hash sound_entry)
       (case mixer_type of SFX \<Rightarrow> 0 | BGM \<Rightarrow> 2)
       (se_wem_hash sound_entry)
       (case map_of media_file_lookup (se_wem_hash sound_entry) of
          None \<Rightarrow> 1024
        | Some media_entry \<Rightarrow> me_size media_entry)
       mixer_hash"

definition mixer_view ::
  "media_dict \<Rightarrow> SoundEntry list \<Rightarrow> int \<times> wem_type \<Rightarrow> hirc_object list"
where
  "mixer_view media_file_lookup sound_entries m =
     (case m of (mixer_hash, mixer_type) \<Rightarrow>
        let mixer_sounds = filter (\<lambda>x. se_wem_type x = mixer_type) sound_entries
        in if mixer_sounds = [] then []
           else map (sound_view media_file_lookup mixer_hash mixer_type) mixer_sounds @
                [ActorMixer mixer_hash])"

definition event_view :: "EventEntry \<Rightarrow> hirc_object list" where
  "event_view event_entry =
     (let name = ee_wem_filename event_entry
      in case ee_wem_type event_entry of
           SFX \<Rightarrow>
             [Action (compute_hash (name @ ''_play'')) Play (compute_hash (name @ ''_sound'')),
              Event (ee_hash event_entry) [compute_hash (name @ ''_play'')]]
         | BGM \<Rightarrow>
             [Action (compute_hash (name @ ''_stop1'')) Stop 289663270,
              Action (compute_hash (name @ ''_play'')) Play (compute_hash (name @ ''_sound'')),
              Action (compute_hash (name @ ''_stop2'')) Stop 920168426,
              Event (ee_hash event_entry)
                [compute_hash (name @ ''_stop1''), compute_hash (name @ ''_play''),
                 compute_hash (name @ ''_stop2'')]])"

definition hirc_objects_view ::
  "string \<Rightarrow> string list \<Rightarrow> string list \<Rightarrow> media_dict \<Rightarrow> hirc_object list"
where
  "hirc_objects_view bnk_out in_sfx_wems in_bgm_wems media_file_lookup =
     concat (map (mixer_view media_file_lookup (sound_entry_list in_sfx_wems in_bgm_wems))
               (mixer_order bnk_out)) @
     concat (map event_view (event_entry_list in_sfx_wems in_bgm_wems))"

section \<open>Properties of the hasher\<close>

lemma mask32_mod: "(x :: int) AND 0xFFFFFFFF = x mod 2 ^ 32"
proof -
  have "(0xFFFFFFFF :: int) = mask 32"
    by (simp add: mask_eq_exp_minus_1)
  then have "x AND 0xFFFFFFFF = take_bit 32 x"
    by (simp only: take_bit_eq_mask)
  then show ?thesis
    by (simp only: take_bit_eq_mod)
qed

lemma foldl_fnv_accumulate:
  "foldl (\<lambda>hash c. ((hash * 16777619) XOR py_ord c) AND 0xFFFFFFFF) a s
     = fnv_accumulate a (map py_ord s)"
  by (induction s arbitrary: a) (simp_all add: mask32_mod)

lemma compute_hash_spec: "compute_hash s = fnv_spec (map py_ord (lower s))"
  by (simp add: compute_hash_def fnv_spec_def foldl_fnv_accumulate)

lemma lower_char_idem: "lower_char (lower_char c) = lower_char c"
proof -
  have "(of_char c :: nat) < 256" by simp
  then show ?thesis
    by (auto simp: lower_char_def Let_def)
qed

lemma lower_idem: "lower (lower s) = lower s"
  by (simp add: lower_def lower_char_idem)

lemma compute_hash_lower: "compute_hash (lower s) = compute_hash s"
  by (simp add: compute_hash_def lower_idem)

lemma compute_hash_cong: "lower s = lower t \<Longrightarrow> compute_hash s = compute_hash t"
  by (simp add: compute_hash_def)


section \<open>Properties of the file operations\<close>

lemma bindE_simps [simp]: "bindE (Inl e) k = Inl e" "bindE (Inr x) k = k x"
  by (simp_all add: bindE_def)

lemma bindE_eq_Inr: "bindE m k = Inr y \<longleftrightarrow> (\<exists>x. m = Inr x \<and> k x = Inr y)"
  by (cases m) simp_all

lemma length_le32 [simp]: "length (le32 n) = 4"
  by (simp add: le32_def)

lemma to_bytes4_Inr: "to_bytes4 n = Inr bs \<longleftrightarrow> bs = le32 n \<and> 0 \<le> n \<and> n < 2 ^ 32"
  by (auto simp: to_bytes4_def)

lemma fwrite_Nil [simp]: "fwrite [] f = f"
  by (simp add: fwrite_def)

lemma fwrite_fwrite: "fwrite b (fwrite a f) = fwrite (a @ b) f"
proof (cases "a = [] \<or> b = []")
  case True
  then show ?thesis by auto
next
  case False
  then have "0 < length a" "0 < length b" by simp_all
  moreover have "length b + (pos f + length a) = pos f + (length a + length b)" by simp
  ultimately show ?thesis using False
    by (auto simp: fwrite_def Let_def min_def add.assoc drop_take add.commute add.left_commute)
qed

lemma write_items_collect:
  "write_items items f = (case collect items of Inl e \<Rightarrow> Inl e | Inr bs \<Rightarrow> Inr (fwrite bs f))"
proof (induction items f rule: write_items.induct)
  case (3 bs rest f)
  then show ?case
    by (cases "collect rest") (simp_all add: fwrite_fwrite)
qed simp_all

lemma fwrite_at_end:
  "at_end f \<Longrightarrow>
   fwrite bs f = \<lparr>content = content f @ bs, pos = length (content f) + length bs\<rparr>"
  by (cases f) (simp add: at_end_def fwrite_def)

lemma fwrite_gap:
  "bs \<noteq> [] \<Longrightarrow>
   fwrite bs \<lparr>content = c, pos = length c + n\<rparr>
     = \<lparr>content = c @ replicate n 0 @ bs, pos = length c + n + length bs\<rparr>"
  by (simp add: fwrite_def)

lemma fwrite_over:
  "length old = length bs \<Longrightarrow>
   fwrite bs \<lparr>content = a @ old @ b, pos = length a\<rparr>
     = \<lparr>content = a @ bs @ b, pos = length a + length bs\<rparr>"
  by (cases "bs = []") (auto simp: fwrite_def)

lemma write_items_at_end:
  "write_items items f = Inr f' \<Longrightarrow> at_end f \<Longrightarrow>
   \<exists>bs. collect items = Inr bs \<and> content f' = content f @ bs \<and> at_end f'"
  by (auto simp: write_items_collect fwrite_at_end at_end_def split: sum.splits)

lemma dict_get_Inr: "dict_get d k = Inr e \<longleftrightarrow> map_of d k = Some e"
  by (simp add: dict_get_def split: option.splits)

lemma same_clips_refl [simp]: "same_clips d d"
  by (simp add: same_clips_def)

lemma same_clips_trans: "same_clips a b \<Longrightarrow> same_clips b c \<Longrightarrow> same_clips a c"
  by (simp add: same_clips_def)

lemma same_clips_update:
  "map_of d k = Some e \<Longrightarrow> entry_id e' = entry_id e \<Longrightarrow> same_clips d (AList.update k e' d)"
  unfolding same_clips_def
  by (induction d) (auto split: if_splits)

lemma same_clips_keys: "same_clips d d' \<Longrightarrow> map fst d' = map fst d"
proof -
  assume "same_clips d d'"
  then have "map fst (map (\<lambda>(k, e). (k, entry_id e)) d') = map fst (map (\<lambda>(k, e). (k, entry_id e)) d)"
    by (simp add: same_clips_def)
  then show ?thesis by (simp add: case_prod_unfold comp_def)
qed

lemma map_of_map_snd: "map_of (map (\<lambda>(k, e). (k, g e)) d) k = map_option g (map_of d k)"
  by (induction d) auto

lemma same_clips_map_of:
  "same_clips d d' \<Longrightarrow> map_option entry_id (map_of d' k) = map_option entry_id (map_of d k)"
  by (metis map_of_map_snd same_clips_def)

lemma write_data_effect:
  "write_data fs hs (lk, off, f) = Inr (lk', off', f') \<Longrightarrow> at_end f \<Longrightarrow> 0 \<le> off \<Longrightarrow>
   \<exists>segs. content f' = content f @ segments_bytes segs \<and> at_end f'
       \<and> off' = off + int (length (segments_bytes segs))
       \<and> same_clips lk lk'
       \<and> map (\<lambda>h. map_option (\<lambda>e. fs (me_wem_filename e)) (map_of lk h)) hs
           = map (\<lambda>(p, wem). Some (Some wem)) segs"
proof (induction hs arbitrary: lk off f)
  case Nil
  then show ?case by (simp add: segments_bytes_def)
next
  case (Cons h hs)
  from Cons.prems(1) obtain e where e: "map_of lk h = Some e"
    by (auto simp: bindE_eq_Inr dict_get_Inr)
  define p where "p = (if off mod 8 \<noteq> 0 then nat (off mod 8) else 0)"
  define f1 where "f1 = fwrite (replicate p 0) f"
  define off1 where "off1 = off + int p"
  define lk1 where "lk1 wem = AList.update h (e\<lparr>me_offset := off1, me_size := int (length wem)\<rparr>) lk" for wem :: "byte list"
  from Cons.prems(1) e obtain wem where wem: "fs (me_wem_filename e) = Some wem"
    and rec: "write_data fs hs (lk1 wem, off1 + int (length wem), fwrite wem f1) = Inr (lk', off', f')"
    by (auto simp: dict_get_def p_def f1_def off1_def lk1_def Let_def split: option.splits if_splits)
  have f1: "content f1 = content f @ replicate p 0" "at_end f1"
    using Cons.prems(2) by (simp_all add: f1_def fwrite_at_end at_end_def)
  then have f2: "content (fwrite wem f1) = content f @ replicate p 0 @ wem" "at_end (fwrite wem f1)"
    by (simp_all add: fwrite_at_end at_end_def)
  have "0 \<le> off1 + int (length wem)"
    using Cons.prems(3) by (simp add: off1_def)
  from Cons.IH [OF rec f2(2) this] obtain segs where D:
    "content f' = content (fwrite wem f1) @ segments_bytes segs" "at_end f'"
    "off' = off1 + int (length wem) + int (length (segments_bytes segs))"
    "same_clips (lk1 wem) lk'"
    "map (\<lambda>h. map_option (\<lambda>e. fs (me_wem_filename e)) (map_of (lk1 wem) h)) hs
           = map (\<lambda>(p, wem). Some (Some wem)) segs"
    by blast
  have sc: "same_clips lk (lk1 wem)"
    unfolding lk1_def by (rule same_clips_update [OF e]) (simp add: entry_id_def)
  have fn: "map_option (\<lambda>e. fs (me_wem_filename e)) (map_of (lk1 wem) k)
              = map_option (\<lambda>e. fs (me_wem_filename e)) (map_of lk k)" for k
  proof -
    have "map_option (\<lambda>x. fs (snd x)) (map_option entry_id (map_of (lk1 wem) k))
            = map_option (\<lambda>x. fs (snd x)) (map_option entry_id (map_of lk k))"
      using same_clips_map_of [OF sc] by simp
    then show ?thesis
      by (simp add: option.map_comp comp_def entry_id_def)
  qed
  have bytes: "segments_bytes ((p, wem) # segs) = replicate p 0 @ wem @ segments_bytes segs"
    by (simp add: segments_bytes_def)
  show ?case
    apply (intro exI [of _ "(p, wem) # segs"])
    using D f2 e wem same_clips_trans [OF sc D(4)]
    by (simp add: off1_def bytes fn)
qed

lemma to_bytes4_u32: "to_bytes4 n = Inr bs \<longleftrightarrow> bs = le32 n \<and> u32 n"
  by (auto simp: to_bytes4_def u32_def)

lemma collect_Cons:
  "collect (x # rest) = bindE x (\<lambda>bs. bindE (collect rest) (\<lambda>r. Inr (bs @ r)))"
  by (cases x) simp_all

lemma collect_Cons_Inr:
  "collect (x # rest) = Inr bs \<longleftrightarrow> (\<exists>a b. x = Inr a \<and> collect rest = Inr b \<and> bs = a @ b)"
  by (auto simp: collect_Cons bindE_eq_Inr)

lemma collect_append:
  "collect (xs @ ys) = bindE (collect xs) (\<lambda>a. bindE (collect ys) (\<lambda>b. Inr (a @ b)))"
proof (induction xs rule: collect.induct)
  case 1
  then show ?case by (cases "collect ys") simp_all
next
  case (3 bs rest)
  then show ?case
    by (cases "collect rest"; cases "collect ys") simp_all
qed simp_all

lemma collect_append_Inr:
  "collect (xs @ ys) = Inr bs \<longleftrightarrow> (\<exists>a b. collect xs = Inr a \<and> collect ys = Inr b \<and> bs = a @ b)"
  by (auto simp: collect_append bindE_eq_Inr)

lemma length_didx_entry [simp]: "length (didx_entry e) = 12"
  by (simp add: didx_entry_def)

lemma collect_media_header:
  "collect (media_header_items lk h) = Inr bs \<longleftrightarrow>
     (\<exists>e. map_of lk h = Some e \<and> bs = didx_entry e
          \<and> u32 (me_hash e) \<and> u32 (me_offset e) \<and> u32 (me_size e))"
  by (cases "map_of lk h")
     (auto simp: media_header_items_def dict_get_def didx_entry_def collect_Cons_Inr to_bytes4_u32)

lemma collect_media_headers:
  "collect (concat (map (media_header_items lk) hs)) = Inr H \<Longrightarrow>
   \<exists>es. map (map_of lk) hs = map Some es \<and> H = concat (map didx_entry es)
      \<and> (\<forall>e\<in>set es. u32 (me_hash e) \<and> u32 (me_offset e) \<and> u32 (me_size e))"
proof (induction hs arbitrary: H)
  case Nil
  then show ?case by simp
next
  case (Cons h hs)
  from Cons.prems obtain a b where a: "collect (media_header_items lk h) = Inr a"
    and b: "collect (concat (map (media_header_items lk) hs)) = Inr b" and H: "H = a @ b"
    by (auto simp: collect_append_Inr)
  from a obtain e where e: "map_of lk h = Some e" "a = didx_entry e"
     "u32 (me_hash e)" "u32 (me_offset e)" "u32 (me_size e)"
    by (auto simp: collect_media_header)
  from Cons.IH [OF b] obtain es where es: "map (map_of lk) hs = map Some es"
    "b = concat (map didx_entry es)"
    "\<forall>e\<in>set es. u32 (me_hash e) \<and> u32 (me_offset e) \<and> u32 (me_size e)"
    by blast
  show ?case
    using e es H by (intro exI [of _ "e # es"]) simp
qed

lemma length_concat_didx: "length (concat (map didx_entry es)) = 12 * length es"
  by (induction es) simp_all

lemma at_end_eq: "at_end f \<Longrightarrow> f = \<lparr>content = content f, pos = length (content f)\<rparr>"
  by (cases f) (simp add: at_end_def)

lemma length_bytes_of [simp]: "length (bytes_of s) = length s"
  by (simp add: bytes_of_def)

lemma write_items_Inr:
  "write_items items f = Inr f' \<longleftrightarrow> (\<exists>bs. collect items = Inr bs \<and> f' = fwrite bs f)"
  by (auto simp: write_items_collect split: sum.splits)

declare write_items.simps [simp del]

lemma write_media_effect:
  assumes w: "write_media fs lk f0 = Inr (lk', f')" and e0: "at_end f0"
  shows "\<exists>es segs.
           content f' = content f0 @ bytes_of ''DIDX'' @ le32 (12 * int (length lk))
                          @ concat (map didx_entry es)
                          @ bytes_of ''DATA'' @ le32 (int (length (segments_bytes segs)))
                          @ segments_bytes segs
         \<and> at_end f'
         \<and> u32 (12 * int (length lk))
         \<and> u32 (int (length (segments_bytes segs)))
         \<and> length es = length lk
         \<and> map (map_of lk') (sorted_media_hashes lk) = map Some es
         \<and> (\<forall>e\<in>set es. u32 (me_hash e) \<and> u32 (me_offset e) \<and> u32 (me_size e))
         \<and> same_clips lk lk'
         \<and> map (\<lambda>h. map_option (\<lambda>e. fs (me_wem_filename e)) (map_of lk h))
                (sorted_media_hashes lk)
             = map (\<lambda>(p, wem). Some (Some wem)) segs"
proof -
  define sz where "sz = 12 * int (length lk)"
  define hs where "hs = sorted_media_hashes lk"
  define c0 where "c0 = content f0"
  have lhs: "length hs = length lk"
    by (simp add: hs_def sorted_media_hashes_def)
  from w obtain f1 f3 f4 lk1 off f5 f7 f9 where
    s1: "write_items [Inr (bytes_of ''DIDX''), to_bytes4 sz] f0 = Inr f1" and
    s3: "write_items [Inr (bytes_of ''DATA'')] (seek_cur sz f1) = Inr f3" and
    s4: "write_items [to_bytes4 0] f3 = Inr f4" and
    s5: "write_data fs hs (lk, 0, f4) = Inr (lk1, off, f5)" and
    s7: "write_items [to_bytes4 off] (seek_set (tell f3) f5) = Inr f7" and
    s9: "write_items (concat (map (media_header_items lk1) hs)) (seek_set (tell f1) f7) = Inr f9" and
    res: "lk' = lk1" "f' = seek_end 0 f9"
    unfolding write_media_def Let_def sz_def [symmetric] hs_def [symmetric]
    by (auto simp: bindE_eq_Inr)
  define c1 where "c1 = c0 @ bytes_of ''DIDX'' @ le32 sz"
  from s1 have usz: "u32 sz" and f1: "f1 = \<lparr>content = c1, pos = length c1\<rparr>"
    using e0 by (auto simp: write_items_Inr bindE_eq_Inr collect_Cons_Inr to_bytes4_u32
        fwrite_at_end c1_def c0_def)
  have sznat: "nat sz = 12 * length lk" "0 \<le> sz"
    by (simp_all add: sz_def)
  have f2: "seek_cur sz f1 = \<lparr>content = c1, pos = length c1 + 12 * length lk\<rparr>"
    using sznat by (simp add: seek_cur_def f1 nat_add_distrib)
  define c3 where "c3 = c1 @ replicate (12 * length lk) 0 @ bytes_of ''DATA''"
  from s3 have f3: "f3 = \<lparr>content = c3, pos = length c3\<rparr>"
    unfolding f2 by (auto simp: write_items_Inr fwrite_gap bytes_of_def c3_def)
  from s4 have f4: "f4 = \<lparr>content = c3 @ le32 0, pos = length c3 + 4\<rparr>"
    by (auto simp: write_items_Inr bindE_eq_Inr collect_Cons_Inr to_bytes4_u32 fwrite_at_end
        at_end_def f3)
  have e4: "at_end f4" by (simp add: f4 at_end_def)
  from write_data_effect [OF s5 e4] obtain segs where
    c5: "content f5 = content f4 @ segments_bytes segs" and e5: "at_end f5" and
    off: "off = int (length (segments_bytes segs))" and sc: "same_clips lk lk1" and
    files: "map (\<lambda>h. map_option (\<lambda>e. fs (me_wem_filename e)) (map_of lk h)) hs
              = map (\<lambda>(p, wem). Some (Some wem)) segs"
    by auto
  define D where "D = segments_bytes segs"
  have f6: "seek_set (tell f3) f5 = \<lparr>content = c3 @ le32 0 @ D, pos = length c3\<rparr>"
    using at_end_eq [OF e5] c5 by (simp add: seek_set_def tell_def f3 f4 D_def)
  from s7 have uoff: "u32 off" and f7: "f7 = \<lparr>content = c3 @ le32 off @ D, pos = length c3 + 4\<rparr>"
    unfolding f6
    by (auto simp: write_items_Inr bindE_eq_Inr collect_Cons_Inr to_bytes4_u32 fwrite_over)
  define tl where "tl = bytes_of ''DATA'' @ le32 off @ D"
  have f8: "seek_set (tell f1) f7 = \<lparr>content = c1 @ replicate (12 * length lk) 0 @ tl, pos = length c1\<rparr>"
    by (simp add: seek_set_def tell_def f1 f7 c3_def tl_def)
  from s9 obtain H where H: "collect (concat (map (media_header_items lk1) hs)) = Inr H"
    and f9: "f9 = fwrite H (seek_set (tell f1) f7)"
    by (auto simp: write_items_Inr)
  from collect_media_headers [OF H] obtain es where
    es: "map (map_of lk1) hs = map Some es" "H = concat (map didx_entry es)"
    "\<forall>e\<in>set es. u32 (me_hash e) \<and> u32 (me_offset e) \<and> u32 (me_size e)"
    by blast
  from es(1) have les: "length es = length lk"
    using lhs by (metis length_map)
  have lH: "length H = 12 * length lk"
    by (simp add: es(2) length_concat_didx les)
  have f9': "f9 = \<lparr>content = c1 @ H @ tl, pos = length c1 + length H\<rparr>"
    unfolding f9 f8 by (rule fwrite_over) (simp add: lH)
  have "content f' = c1 @ H @ tl" "at_end f'"
    by (simp_all add: res seek_end_def f9' at_end_def)
  then show ?thesis
    using usz uoff les es sc files
    by (intro exI [of _ es] exI [of _ segs])
       (simp add: c1_def tl_def D_def c0_def sz_def off res hs_def)
qed

lemma write_data_eq:
  "write_data fs hs (lk, off, \<lparr>content = c @ acc, pos = length c + length acc\<rparr>)
     = bindE (data_bytes fs hs (lk, off, acc))
         (\<lambda>(lk', off', body). Inr (lk', off', \<lparr>content = c @ body, pos = length c + length body\<rparr>))"
proof (induction hs arbitrary: lk off acc)
  case Nil
  then show ?case by simp
next
  case (Cons h hs)
  show ?case
  proof (cases "map_of lk h")
    case None
    then show ?thesis by (simp add: dict_get_def)
  next
    case (Some e)
    note e = this
    show ?thesis
    proof (cases "fs (me_wem_filename e)")
      case None
      then show ?thesis using e by (simp add: dict_get_def)
    next
      case (Some wem)
      note wem = this
      show ?thesis
      proof (cases "off mod 8 = 0")
        case True
        have w: "fwrite wem \<lparr>content = c @ acc, pos = length c + length acc\<rparr>
                 = \<lparr>content = c @ (acc @ wem), pos = length c + length (acc @ wem)\<rparr>"
          by (simp add: fwrite_at_end at_end_def)
        have "write_data fs (h # hs) (lk, off, \<lparr>content = c @ acc, pos = length c + length acc\<rparr>)
              = write_data fs hs (AList.update h (e\<lparr>me_offset := off, me_size := int (length wem)\<rparr>) lk,
                   off + int (length wem),
                   \<lparr>content = c @ (acc @ wem), pos = length c + length (acc @ wem)\<rparr>)"
          using e wem True w by (simp add: dict_get_def Let_def)
        also have "\<dots> = bindE (data_bytes fs hs (AList.update h (e\<lparr>me_offset := off, me_size := int (length wem)\<rparr>) lk,
                   off + int (length wem), acc @ wem))
         (\<lambda>(lk', off', body). Inr (lk', off', \<lparr>content = c @ body, pos = length c + length body\<rparr>))"
          by (rule Cons.IH)
        also have "\<dots> = bindE (data_bytes fs (h # hs) (lk, off, acc))
         (\<lambda>(lk', off', body). Inr (lk', off', \<lparr>content = c @ body, pos = length c + length body\<rparr>))"
          using e wem True by simp
        finally show ?thesis .
      next
        case False
        define p where "p = nat (off mod 8)"
        have ip: "int p = off mod 8" by (simp add: p_def)
        have w: "fwrite wem (fwrite (replicate p 0) \<lparr>content = c @ acc, pos = length c + length acc\<rparr>)
                 = \<lparr>content = c @ (acc @ replicate p 0 @ wem),
                    pos = length c + length (acc @ replicate p 0 @ wem)\<rparr>"
          by (simp add: fwrite_fwrite fwrite_at_end at_end_def)
        have "write_data fs (h # hs) (lk, off, \<lparr>content = c @ acc, pos = length c + length acc\<rparr>)
              = write_data fs hs (AList.update h (e\<lparr>me_offset := off + off mod 8, me_size := int (length wem)\<rparr>) lk,
                   off + off mod 8 + int (length wem),
                   \<lparr>content = c @ (acc @ replicate p 0 @ wem),
                    pos = length c + length (acc @ replicate p 0 @ wem)\<rparr>)"
          using e wem False w by (simp add: dict_get_def Let_def p_def)
        also have "\<dots> = bindE (data_bytes fs hs (AList.update h (e\<lparr>me_offset := off + off mod 8, me_size := int (length wem)\<rparr>) lk,
                   off + off mod 8 + int (length wem), acc @ replicate p 0 @ wem))
         (\<lambda>(lk', off', body). Inr (lk', off', \<lparr>content = c @ body, pos = length c + length body\<rparr>))"
          by (rule Cons.IH)
        also have "\<dots> = bindE (data_bytes fs (h # hs) (lk, off, acc))
         (\<lambda>(lk', off', body). Inr (lk', off', \<lparr>content = c @ body, pos = length c + length body\<rparr>))"
          using e wem False by (simp add: p_def)
        finally show ?thesis .
      qed
    qed
  qed
qed

lemma write_items_end:
  "write_items items \<lparr>content = c, pos = length c\<rparr>
     = bindE (collect items) (\<lambda>bs. Inr \<lparr>content = c @ bs, pos = length c + length bs\<rparr>)"
  by (cases "collect items") (simp_all add: write_items_collect fwrite_at_end at_end_def)

lemma collect_single: "collect [x] = x"
  by (cases x) simp_all

lemma to_bytes4_0 [simp]: "to_bytes4 0 = Inr (le32 0)"
  by (simp add: to_bytes4_def)

lemma bindE_assoc: "bindE (bindE m k) k' = bindE m (\<lambda>x. bindE (k x) k')"
  by (cases m) simp_all

lemma write_media_eq:
  "write_media fs lk \<lparr>content = c0, pos = length c0\<rparr>
     = bindE (media_bytes fs lk)
         (\<lambda>(lk', m). Inr (lk', \<lparr>content = c0 @ m, pos = length c0 + length m\<rparr>))"
proof (cases "to_bytes4 (12 * int (length lk))")
  case (Inl e)
  then show ?thesis
    by (simp add: write_media_def media_bytes_def Let_def write_items_end collect_Cons)
next
  case (Inr szb)
  then have szb: "szb = le32 (12 * int (length lk))"
    by (simp add: to_bytes4_u32)
  define c1 where "c1 = c0 @ bytes_of ''DIDX'' @ szb"
  define c3 where "c3 = c1 @ replicate (12 * length lk) 0 @ bytes_of ''DATA''"
  define c4 where "c4 = c3 @ le32 0"
  define hs where "hs = sorted_media_hashes lk"
  have s1: "write_items [Inr (bytes_of ''DIDX''), to_bytes4 (12 * int (length lk))]
              \<lparr>content = c0, pos = length c0\<rparr> = Inr \<lparr>content = c1, pos = length c1\<rparr>"
    by (simp add: write_items_end collect_Cons Inr c1_def szb)
  have s2: "seek_cur (12 * int (length lk)) \<lparr>content = c1, pos = length c1\<rparr>
              = \<lparr>content = c1, pos = length c1 + 12 * length lk\<rparr>"
    by (simp add: seek_cur_def nat_add_distrib nat_mult_distrib)
  have s3: "write_items [Inr (bytes_of ''DATA'')] \<lparr>content = c1, pos = length c1 + 12 * length lk\<rparr>
              = Inr \<lparr>content = c3, pos = length c3\<rparr>"
    by (simp add: write_items_collect fwrite_gap bytes_of_def c3_def)
  have s4: "write_items [Inr (le32 0)] \<lparr>content = c3, pos = length c3\<rparr>
              = Inr \<lparr>content = c4, pos = length c4\<rparr>"
    by (simp add: write_items_end c4_def)
  have s5: "write_data fs hs (lk, 0, \<lparr>content = c4, pos = length c4\<rparr>)
              = bindE (data_bytes fs hs (lk, 0, []))
                  (\<lambda>(lk', off', body). Inr (lk', off', \<lparr>content = c4 @ body, pos = length c4 + length body\<rparr>))"
    using write_data_eq [of fs hs lk 0 c4 "[]"] by simp
  have start: "write_media fs lk \<lparr>content = c0, pos = length c0\<rparr>
     = bindE (data_bytes fs hs (lk, 0, [])) (\<lambda>(lk', off, body).
         bindE (write_items [to_bytes4 off]
                  (seek_set (int (length c3)) \<lparr>content = c4 @ body, pos = length c4 + length body\<rparr>))
           (\<lambda>f7. bindE (write_items (concat (map (media_header_items lk') hs))
                           (seek_set (int (length c1)) f7))
                    (\<lambda>f9. Inr (lk', seek_end 0 f9))))"
    unfolding write_media_def Let_def hs_def [symmetric]
    by (simp add: s1 s2 s3 s4 s5 tell_def case_prod_unfold bindE_assoc)
  show ?thesis
  proof (cases "data_bytes fs hs (lk, 0, [])")
    case (Inl e)
    then show ?thesis
      unfolding start by (simp add: media_bytes_def Inr hs_def)
  next
    case d: (Inr r)
    obtain lk' off body where r: "r = (lk', off, body)"
      by (cases r) auto
    have f6: "seek_set (int (length c3)) \<lparr>content = c4 @ body, pos = length c4 + length body\<rparr>
                = \<lparr>content = c3 @ le32 0 @ body, pos = length c3\<rparr>"
      by (simp add: seek_set_def c4_def)
    show ?thesis
    proof (cases "to_bytes4 off")
      case (Inl e)
      then show ?thesis
        unfolding start
        by (simp add: media_bytes_def Inr hs_def [symmetric] d r f6 write_items_collect collect_single)
    next
      case o: (Inr offb)
      then have offb: "offb = le32 off"
        by (simp add: to_bytes4_u32)
      define tl where "tl = bytes_of ''DATA'' @ offb @ body"
      have s7: "write_items [Inr offb] \<lparr>content = c3 @ le32 0 @ body, pos = length c3\<rparr>
                  = Inr \<lparr>content = c3 @ offb @ body, pos = length c3 + 4\<rparr>"
        by (simp add: write_items_collect offb fwrite_over)
      have f8: "seek_set (int (length c1)) \<lparr>content = c3 @ offb @ body, pos = length c3 + 4\<rparr>
                  = \<lparr>content = c1 @ replicate (12 * length lk) 0 @ tl, pos = length c1\<rparr>"
        by (simp add: seek_set_def c3_def tl_def)
      show ?thesis
      proof (cases "collect (concat (map (media_header_items lk') hs))")
        case (Inl e)
        then show ?thesis
          unfolding start
          by (simp add: media_bytes_def Inr hs_def [symmetric] d r f6 s7 f8 o write_items_collect)
      next
        case h: (Inr H)
        from collect_media_headers [OF h] obtain es where
          es: "map (map_of lk') hs = map Some es" "H = concat (map didx_entry es)"
          by blast
        have "length es = length hs"
          using es(1) by (metis length_map)
        then have lH: "length H = 12 * length lk"
          by (simp add: es(2) length_concat_didx hs_def sorted_media_hashes_def)
        have s9: "write_items (concat (map (media_header_items lk') hs))
                    \<lparr>content = c1 @ replicate (12 * length lk) 0 @ tl, pos = length c1\<rparr>
                  = Inr \<lparr>content = c1 @ H @ tl, pos = length c1 + length H\<rparr>"
          by (simp add: write_items_collect h fwrite_over lH)
        have lhs: "write_media fs lk \<lparr>content = c0, pos = length c0\<rparr>
                     = Inr (lk', \<lparr>content = c1 @ H @ tl, pos = length (c1 @ H @ tl)\<rparr>)"
          unfolding start by (simp add: d r f6 o s7 f8 s9 seek_end_def)
        have rhs: "media_bytes fs lk
                     = Inr (lk', bytes_of ''DIDX'' @ szb @ H @ bytes_of ''DATA'' @ offb @ body)"
          by (simp add: media_bytes_def Inr hs_def [symmetric] d r o h)
        show ?thesis
          unfolding lhs rhs by (simp add: c1_def tl_def)
      qed
    qed
  qed
qed

lemma write_hirc_eq:
  "write_hirc bnk_out sfx bgm lk \<lparr>content = c0, pos = length c0\<rparr>
     = bindE (hirc_bytes bnk_out sfx bgm lk)
         (\<lambda>h. Inr \<lparr>content = c0 @ h, pos = length c0 + 8\<rparr>)"
proof -
  define c1 where "c1 = c0 @ bytes_of ''HIRC''"
  have s1: "write_items [Inr (bytes_of ''HIRC'')] \<lparr>content = c0, pos = length c0\<rparr>
              = Inr \<lparr>content = c1, pos = length c1\<rparr>"
    by (simp add: write_items_end c1_def)
  show ?thesis
  proof (cases "to_bytes4 (hirc_entry_count sfx bgm)")
  case (Inl e)
  then show ?thesis
    by (simp add: write_hirc_def hirc_bytes_def Let_def write_items_collect collect_Cons)
next
  case c: (Inr cnt)
  then have cnt: "cnt = le32 (hirc_entry_count sfx bgm)"
    by (simp add: to_bytes4_u32)
  define c2 where "c2 = c1 @ le32 0 @ cnt"
  have s2: "write_items [Inr (le32 0), Inr cnt] \<lparr>content = c1, pos = length c1\<rparr>
              = Inr \<lparr>content = c2, pos = length c2\<rparr>"
    by (simp add: write_items_end c2_def)
  show ?thesis
  proof (cases "collect (concat (hirc_objects bnk_out sfx bgm lk))")
    case (Inl e)
    then have "write_items (concat (hirc_objects bnk_out sfx bgm lk)) f = Inl e" for f
      by (simp add: write_items_collect)
    then show ?thesis
      using Inl by (simp add: write_hirc_def hirc_bytes_def Let_def c s1 s2)
  next
    case o: (Inr objs)
    have s3: "write_items (concat (hirc_objects bnk_out sfx bgm lk)) \<lparr>content = c2, pos = length c2\<rparr>
                = Inr \<lparr>content = c2 @ objs, pos = length c2 + length objs\<rparr>"
      by (simp add: write_items_end o)
    have len: "tell \<lparr>content = c2 @ objs, pos = length c2 + length objs\<rparr> - tell \<lparr>content = c1, pos = length c1\<rparr> - 4
                 = 4 + int (length objs)"
      by (simp add: tell_def c2_def cnt)
    have f4: "seek_set (tell \<lparr>content = c1, pos = length c1\<rparr>) \<lparr>content = c2 @ objs, pos = length c2 + length objs\<rparr>
                = \<lparr>content = c1 @ le32 0 @ (cnt @ objs), pos = length c1\<rparr>"
      by (simp add: seek_set_def tell_def c2_def)
    show ?thesis
    proof (cases "to_bytes4 (4 + int (length objs))")
      case (Inl e)
      then show ?thesis
        by (simp add: write_hirc_def hirc_bytes_def Let_def c s1 s2 s3 o len f4 write_items.simps(2))
    next
      case l: (Inr lenb)
      then have lenb: "lenb = le32 (4 + int (length objs))"
        by (simp add: to_bytes4_u32)
      have s5: "write_items [Inr lenb] \<lparr>content = c1 @ le32 0 @ (cnt @ objs), pos = length c1\<rparr>
                  = Inr \<lparr>content = c1 @ lenb @ (cnt @ objs), pos = length c1 + length lenb\<rparr>"
        by (simp add: write_items_collect fwrite_over lenb)
      have lhs: "write_hirc bnk_out sfx bgm lk \<lparr>content = c0, pos = length c0\<rparr>
                   = Inr \<lparr>content = c1 @ lenb @ (cnt @ objs), pos = length c1 + length lenb\<rparr>"
        by (simp add: write_hirc_def Let_def c s1 s2 s3 len f4 l s5)
      show ?thesis
        unfolding lhs by (simp add: hirc_bytes_def c o l c1_def lenb)
    qed
  qed
qed
qed

lemma write_bnk_eq:
  "(case write_bnk fs bnk_out sfx bgm lk of Inl e \<Rightarrow> Inl e | Inr f \<Rightarrow> Inr (content f))
     = bnk_bytes fs bnk_out sfx bgm lk"
proof (cases "collect (bkhd_items bnk_out)")
  case (Inl e)
  then show ?thesis
    using write_items_end [of "bkhd_items bnk_out" "[]"]
    by (simp add: write_bnk_def bnk_bytes_def)
next
  case h: (Inr header)
  have s1: "write_items (bkhd_items bnk_out) \<lparr>content = [], pos = 0\<rparr>
              = Inr \<lparr>content = header, pos = length header\<rparr>"
    using write_items_end [of "bkhd_items bnk_out" "[]"] h by simp
  define m where "m = (if length lk > 0 then media_bytes fs lk else Inr (lk, []))"
  have s2: "(if length lk > 0 then write_media fs lk \<lparr>content = header, pos = length header\<rparr>
             else Inr (lk, \<lparr>content = header, pos = length header\<rparr>))
            = bindE m (\<lambda>(lk', media). Inr (lk', \<lparr>content = header @ media,
                                                  pos = length header + length media\<rparr>))"
    by (simp add: m_def write_media_eq)
  show ?thesis
  proof (cases m)
    case (Inl e)
    then show ?thesis
      using Inl [unfolded m_def]
      by (simp add: write_bnk_def bnk_bytes_def s1 s2 h del: length_greater_0_conv)
  next
    case (Inr r)
    obtain lk' media where r: "r = (lk', media)"
      by (cases r) auto
    have s3: "write_hirc bnk_out sfx bgm lk' \<lparr>content = header @ media, pos = length header + length media\<rparr>
                = bindE (hirc_bytes bnk_out sfx bgm lk')
                    (\<lambda>hb. Inr \<lparr>content = (header @ media) @ hb, pos = length (header @ media) + 8\<rparr>)"
      using write_hirc_eq [of bnk_out sfx bgm lk' "header @ media"] by simp
    show ?thesis
      using Inr [unfolded m_def r]
      by (cases "hirc_bytes bnk_out sfx bgm lk'")
         (simp_all add: write_bnk_def bnk_bytes_def s1 s2 h Inr r s3 del: length_greater_0_conv)
  qed
qed

lemma run_eq:
  "run fs exclude_bgm bnk_out wem_table =
     (case read_wem_table 0 wem_table ([], [], []) of
        Inl e \<Rightarrow> Aborted e
      | Inr (in_sfx_wems, in_bgm_wems, printed) \<Rightarrow>
          (case build_media_file_lookup
                  (stored_wems exclude_bgm in_sfx_wems in_bgm_wems) [] of
             Inl e \<Rightarrow> Aborted e
           | Inr media_file_lookup \<Rightarrow>
               (case bnk_bytes fs bnk_out in_sfx_wems in_bgm_wems media_file_lookup of
                  Inl e \<Rightarrow> Failed e
                | Inr bs \<Rightarrow> Written bs)))"
  unfolding run_def write_bnk_eq [symmetric]
  by (auto split: sum.splits prod.splits)

section \<open>Properties of the table reader and the catalog\<close>

lemma split_not_Nil [simp]: "split sep s \<noteq> []"
  by (induction s) (auto split: list.splits)

lemma split_no_sep: "sep \<notin> set s \<Longrightarrow> split sep s = [s]"
  by (induction s) auto

lemma length_split: "length (split sep s) = Suc (length (filter (\<lambda>c. c = sep) s))"
  by (induction s) (auto split: list.splits)

lemma split_two_fields: "sep \<in> set s \<Longrightarrow> 2 \<le> length (split sep s)"
  by (simp add: length_split filter_empty_conv Suc_le_eq)

lemma getitem_Inr: "i < length xs \<Longrightarrow> getitem xs i = Inr (xs ! i)"
  by (simp add: getitem_def)

lemma read_wem_table_error:
  "read_wem_table i wem_table st = Inl e \<Longrightarrow> e = IndexError"
proof (induction wem_table arbitrary: i st)
  case Nil
  then show ?case by simp
next
  case (Cons line rest)
  obtain sfx bgm pr where st: "st = (sfx, bgm, pr)"
    by (cases st) auto
  from Cons.prems show ?case
    unfolding st
    by (auto simp: Let_def getitem_def bindE_def dest: Cons.IH split: if_splits)
qed

lemma read_wem_table_step:
  assumes "tab \<in> set (strip l)"
  shows "read_wem_table i (l # rest) (sfx, bgm, pr) =
           (if wem_type_of l = map py_ord ''SFX''
              then read_wem_table (Suc i) rest (sfx @ [wem_path_of l], bgm, pr)
            else if wem_type_of l = map py_ord ''BGM''
              then read_wem_table (Suc i) rest (sfx, bgm @ [wem_path_of l], pr)
            else read_wem_table (Suc i) rest (sfx, bgm, pr @ [(i, wem_type_of l)]))"
proof -
  have len: "2 \<le> length (split tab (strip l))"
    using assms by (rule split_two_fields)
  then have g: "getitem (split tab (strip l)) 0 = Inr (hd (split tab (strip l)))"
      "getitem (split tab (strip l)) (Suc 0) = Inr (split tab (strip l) ! 1)"
    by (simp_all add: getitem_def hd_conv_nth)
  show ?thesis
    unfolding read_wem_table.simps Let_def wem_type_of_def wem_path_of_def One_nat_def g bindE_simps
    by (rule refl)
qed

lemma read_wem_table_no_tab:
  "line \<in> set wem_table \<Longrightarrow> tab \<notin> set (strip line) \<Longrightarrow>
   read_wem_table i wem_table st = Inl IndexError"
proof (induction wem_table arbitrary: i st)
  case Nil
  then show ?case by simp
next
  case (Cons l rest)
  obtain sfx bgm pr where st: "st = (sfx, bgm, pr)"
    by (cases st) auto
  show ?case
  proof (cases "tab \<in> set (strip l)")
    case False
    then show ?thesis
      unfolding st by (simp add: split_no_sep getitem_def)
  next
    case True
    with Cons.prems have mem: "line \<in> set rest" by auto
    show ?thesis
      unfolding st read_wem_table_step [OF True]
      using Cons.IH [OF mem Cons.prems(2)] by simp
  qed
qed

lemma invalid_lines_Cons:
  "invalid_lines i (l # rest) =
     (if wem_type_of l \<noteq> map py_ord ''SFX'' \<and> wem_type_of l \<noteq> map py_ord ''BGM''
      then [(i, wem_type_of l)] else []) @ invalid_lines (Suc i) rest"
  unfolding invalid_lines_def by simp

lemma sfx_lines_Cons:
  "sfx_lines (l # rest) =
     (if wem_type_of l = map py_ord ''SFX'' then [wem_path_of l] else []) @ sfx_lines rest"
  unfolding sfx_lines_def by simp

lemma bgm_lines_Cons:
  "bgm_lines (l # rest) =
     (if wem_type_of l \<noteq> map py_ord ''SFX'' \<and> wem_type_of l = map py_ord ''BGM''
      then [wem_path_of l] else []) @ bgm_lines rest"
  unfolding bgm_lines_def by simp

lemma read_wem_table_fields:
  "\<forall>line\<in>set wem_table. tab \<in> set (strip line) \<Longrightarrow>
   read_wem_table i wem_table (sfx, bgm, pr)
     = Inr (sfx @ sfx_lines wem_table, bgm @ bgm_lines wem_table, pr @ invalid_lines i wem_table)"
proof (induction wem_table arbitrary: i sfx bgm pr)
  case Nil
  then show ?case
    by (simp add: sfx_lines_def bgm_lines_def invalid_lines_def)
next
  case (Cons l rest)
  have l: "tab \<in> set (strip l)"
    using Cons.prems by simp
  have rest: "\<forall>line\<in>set rest. tab \<in> set (strip line)"
    using Cons.prems by simp
  show ?case
    unfolding read_wem_table_step [OF l] Cons.IH [OF rest]
      invalid_lines_Cons sfx_lines_Cons bgm_lines_Cons
    by (cases "wem_type_of l = map py_ord ''SFX''"; cases "wem_type_of l = map py_ord ''BGM''")
       simp_all
qed

lemma build_media_file_lookup_total:
  "\<exists>d'. build_media_file_lookup wems d = Inr d'"
  by (induction wems arbitrary: d) (simp_all add: Let_def)




section \<open>The example inputs evaluated\<close>

lemma example_header:
  "collect (bkhd_items ''o'') =
   Inr
     [66, 75, 72, 68, 24, 0, 0, 0, 140, 0, 0, 0, 112, 93, 12, 5, 62, 93, 112, 23, 16,
      0, 0, 0, 138, 43, 0, 0, 0, 0, 0, 0]"
  by code_simp

lemma example_run:
  "run example_fs False ''o'' example_table = Written example_output"
proof -
  have r: "read_wem_table 0 example_table ([], [], []) = Inr ([''a''], [''b''], [])"
    unfolding example_table_def by code_simp
  have b: "build_media_file_lookup [''a'', ''b''] [] =
           Inr [(84696446, \<lparr>me_hash = 84696446, me_wem_filename = ''a'',
                          me_offset = - 1, me_size = - 1\<rparr>),
              (84696445, \<lparr>me_hash = 84696445, me_wem_filename = ''b'',
                          me_offset = - 1, me_size = - 1\<rparr>)]"
    by code_simp
  have m: "media_bytes example_fs
             [(84696446, \<lparr>me_hash = 84696446, me_wem_filename = ''a'',
                          me_offset = - 1, me_size = - 1\<rparr>),
              (84696445, \<lparr>me_hash = 84696445, me_wem_filename = ''b'',
                          me_offset = - 1, me_size = - 1\<rparr>)] =
           Inr ([(84696446, \<lparr>me_hash = 84696446, me_wem_filename = ''a'',
                          me_offset = 6, me_size = 3\<rparr>),
              (84696445, \<lparr>me_hash = 84696445, me_wem_filename = ''b'',
                          me_offset = 0, me_size = 3\<rparr>)],
                [68, 73, 68, 88, 24, 0, 0, 0, 125, 93, 12, 5, 0, 0, 0, 0, 3, 0, 0, 0,
                 126, 93, 12, 5, 6, 0, 0, 0, 3, 0, 0, 0, 68, 65, 84, 65, 9, 0, 0, 0, 4,
                 5, 6, 0, 0, 0, 1, 2, 3])"
    unfolding example_fs_def by code_simp
  have h: "hirc_bytes ''o'' [''a''] [''b'']
             [(84696446, \<lparr>me_hash = 84696446, me_wem_filename = ''a'',
                          me_offset = 6, me_size = 3\<rparr>),
              (84696445, \<lparr>me_hash = 84696445, me_wem_filename = ''b'',
                          me_offset = 0, me_size = 3\<rparr>)] =
           Inr
             [72, 73, 82, 67, 107, 1, 0, 0, 10, 0, 0, 0, 2, 50, 0, 0, 0, 34, 56, 94,
              127, 1, 0, 2, 0, 0, 126, 93, 12, 5, 3, 0, 0, 0, 0, 0, 0, 0, 0, 0, 0, 0,
              0, 0, 95, 21, 35, 105, 0, 0, 0, 0, 0, 0, 0, 0, 0, 0, 1, 1, 0, 0, 0, 0, 0,
              0, 0, 7, 55, 0, 0, 0, 95, 21, 35, 105, 0, 0, 0, 0, 0, 97, 17, 119, 94, 0,
              0, 0, 0, 0, 2, 0, 7, 0, 0, 32, 64, 0, 0, 112, 66, 0, 3, 8, 0, 0, 0, 0, 0,
              0, 1, 0, 0, 0, 0, 0, 0, 0, 0, 1, 0, 0, 0, 34, 56, 94, 127, 2, 55, 0, 0,
              0, 221, 82, 27, 115, 1, 0, 2, 0, 2, 125, 93, 12, 5, 3, 0, 0, 0, 0, 0, 0,
              0, 0, 0, 0, 0, 0, 0, 4, 139, 21, 149, 0, 1, 58, 0, 0, 0, 0, 0, 0, 0, 0,
              0, 0, 0, 0, 1, 0, 0, 0, 0, 0, 0, 0, 0, 7, 50, 0, 0, 0, 4, 139, 21, 149,
              0, 0, 0, 0, 0, 0, 0, 0, 0, 38, 233, 67, 17, 0, 1, 0, 0, 0, 32, 192, 0, 3,
              8, 0, 0, 0, 0, 0, 0, 1, 0, 0, 0, 0, 0, 0, 0, 0, 1, 0, 0, 0, 221, 82, 27,
              115, 3, 21, 0, 0, 0, 65, 245, 17, 109, 2, 1, 38, 233, 67, 17, 0, 1, 16,
              244, 1, 0, 0, 0, 4, 6, 0, 3, 18, 0, 0, 0, 238, 20, 159, 83, 3, 4, 221,
              82, 27, 115, 0, 0, 0, 4, 112, 93, 12, 5, 3, 16, 0, 0, 0, 66, 245, 17,
              109, 2, 1, 234, 167, 216, 54, 0, 0, 0, 4, 6, 0, 4, 17, 0, 0, 0, 127, 34,
              67, 24, 3, 65, 245, 17, 109, 238, 20, 159, 83, 66, 245, 17, 109, 3, 18,
              0, 0, 0, 127, 194, 140, 35, 3, 4, 34, 56, 94, 127, 0, 0, 0, 4, 112, 93,
              12, 5, 4, 9, 0, 0, 0, 150, 213, 189, 173, 1, 127, 194, 140, 35]"
    by code_simp
  show ?thesis
    by (simp add: run_eq r stored_wems_def b bnk_bytes_def example_header m h example_output_def
          del: build_media_file_lookup.simps)
qed

lemma duplicate_run:
  "run example_fs False ''o'' duplicate_table = Written duplicate_output"
proof -
  have r: "read_wem_table 0 duplicate_table ([], [], []) = Inr ([''a'', ''a''], [], [])"
    unfolding duplicate_table_def by code_simp
  have b: "build_media_file_lookup [''a'', ''a''] [] =
           Inr [(84696446, \<lparr>me_hash = 84696446, me_wem_filename = ''a'',
                          me_offset = - 1, me_size = - 1\<rparr>)]"
    by code_simp
  have m: "media_bytes example_fs
             [(84696446, \<lparr>me_hash = 84696446, me_wem_filename = ''a'',
                          me_offset = - 1, me_size = - 1\<rparr>)] =
           Inr ([(84696446, \<lparr>me_hash = 84696446, me_wem_filename = ''a'',
                          me_offset = 0, me_size = 3\<rparr>)],
                [68, 73, 68, 88, 12, 0, 0, 0, 126, 93, 12, 5, 0, 0, 0, 0, 3, 0, 0, 0,
                 68, 65, 84, 65, 3, 0, 0, 0, 1, 2, 3])"
    unfolding example_fs_def by code_simp
  have h: "hirc_bytes ''o'' [''a'', ''a''] []
             [(84696446, \<lparr>me_hash = 84696446, me_wem_filename = ''a'',
                          me_offset = 0, me_size = 3\<rparr>)] =
           Inr
             [72, 73, 82, 67, 252, 0, 0, 0, 7, 0, 0, 0, 2, 50, 0, 0, 0, 34, 56, 94,
              127, 1, 0, 2, 0, 0, 126, 93, 12, 5, 3, 0, 0, 0, 0, 0, 0, 0, 0, 0, 0, 0,
              0, 0, 95, 21, 35, 105, 0, 0, 0, 0, 0, 0, 0, 0, 0, 0, 1, 1, 0, 0, 0, 0, 0,
              0, 0, 2, 50, 0, 0, 0, 34, 56, 94, 127, 1, 0, 2, 0, 0, 126, 93, 12, 5, 3,
              0, 0, 0, 0, 0, 0, 0, 0, 0, 0, 0, 0, 0, 95, 21, 35, 105, 0, 0, 0, 0, 0, 0,
              0, 0, 0, 0, 1, 1, 0, 0, 0, 0, 0, 0, 0, 7, 59, 0, 0, 0, 95, 21, 35, 105,
              0, 0, 0, 0, 0, 97, 17, 119, 94, 0, 0, 0, 0, 0, 2, 0, 7, 0, 0, 32, 64, 0,
              0, 112, 66, 0, 3, 8, 0, 0, 0, 0, 0, 0, 1, 0, 0, 0, 0, 0, 0, 0, 0, 2, 0,
              0, 0, 34, 56, 94, 127, 34, 56, 94, 127, 3, 18, 0, 0, 0, 127, 194, 140,
              35, 3, 4, 34, 56, 94, 127, 0, 0, 0, 4, 112, 93, 12, 5, 4, 9, 0, 0, 0,
              150, 213, 189, 173, 1, 127, 194, 140, 35, 3, 18, 0, 0, 0, 127, 194, 140,
              35, 3, 4, 34, 56, 94, 127, 0, 0, 0, 4, 112, 93, 12, 5, 4, 9, 0, 0, 0,
              150, 213, 189, 173, 1, 127, 194, 140, 35]"
    by code_simp
  show ?thesis
    by (simp add: run_eq r stored_wems_def b bnk_bytes_def example_header m h duplicate_output_def
          del: build_media_file_lookup.simps)
qed


lemma shared_run:
  "run example_fs True ''o'' shared_path_table = Written shared_output"
proof -
  have r: "read_wem_table 0 shared_path_table ([], [], []) = Inr ([''a''], [''a''], [])"
    unfolding shared_path_table_def by code_simp
  have b: "build_media_file_lookup [''a''] [] =
           Inr [(84696446, \<lparr>me_hash = 84696446, me_wem_filename = ''a'',
                          me_offset = - 1, me_size = - 1\<rparr>)]"
    by code_simp
  have m: "media_bytes example_fs
             [(84696446, \<lparr>me_hash = 84696446, me_wem_filename = ''a'',
                          me_offset = - 1, me_size = - 1\<rparr>)] =
           Inr ([(84696446, \<lparr>me_hash = 84696446, me_wem_filename = ''a'',
                          me_offset = 0, me_size = 3\<rparr>)],
                [68, 73, 68, 88, 12, 0, 0, 0, 126, 93, 12, 5, 0, 0, 0, 0, 3, 0, 0, 0,
                 68, 65, 84, 65, 3, 0, 0, 0, 1, 2, 3])"
    unfolding example_fs_def by code_simp
  have h: "hirc_bytes ''o'' [''a''] [''a'']
             [(84696446, \<lparr>me_hash = 84696446, me_wem_filename = ''a'',
                          me_offset = 0, me_size = 3\<rparr>)] =
           Inr
             [72, 73, 82, 67, 107, 1, 0, 0, 10, 0, 0, 0, 2, 50, 0, 0, 0, 34, 56, 94,
              127, 1, 0, 2, 0, 0, 126, 93, 12, 5, 3, 0, 0, 0, 0, 0, 0, 0, 0, 0, 0, 0,
              0, 0, 95, 21, 35, 105, 0, 0, 0, 0, 0, 0, 0, 0, 0, 0, 1, 1, 0, 0, 0, 0, 0,
              0, 0, 7, 55, 0, 0, 0, 95, 21, 35, 105, 0, 0, 0, 0, 0, 97, 17, 119, 94, 0,
              0, 0, 0, 0, 2, 0, 7, 0, 0, 32, 64, 0, 0, 112, 66, 0, 3, 8, 0, 0, 0, 0, 0,
              0, 1, 0, 0, 0, 0, 0, 0, 0, 0, 1, 0, 0, 0, 34, 56, 94, 127, 2, 55, 0, 0,
              0, 34, 56, 94, 127, 1, 0, 2, 0, 2, 126, 93, 12, 5, 3, 0, 0, 0, 0, 0, 0,
              0, 0, 0, 0, 0, 0, 0, 4, 139, 21, 149, 0, 1, 58, 0, 0, 0, 0, 0, 0, 0, 0,
              0, 0, 0, 0, 1, 0, 0, 0, 0, 0, 0, 0, 0, 7, 50, 0, 0, 0, 4, 139, 21, 149,
              0, 0, 0, 0, 0, 0, 0, 0, 0, 38, 233, 67, 17, 0, 1, 0, 0, 0, 32, 192, 0, 3,
              8, 0, 0, 0, 0, 0, 0, 1, 0, 0, 0, 0, 0, 0, 0, 0, 1, 0, 0, 0, 34, 56, 94,
              127, 3, 18, 0, 0, 0, 127, 194, 140, 35, 3, 4, 34, 56, 94, 127, 0, 0, 0,
              4, 112, 93, 12, 5, 4, 9, 0, 0, 0, 150, 213, 189, 173, 1, 127, 194, 140,
              35, 3, 21, 0, 0, 0, 22, 177, 194, 188, 2, 1, 38, 233, 67, 17, 0, 1, 16,
              244, 1, 0, 0, 0, 4, 6, 0, 3, 18, 0, 0, 0, 127, 194, 140, 35, 3, 4, 34,
              56, 94, 127, 0, 0, 0, 4, 112, 93, 12, 5, 3, 16, 0, 0, 0, 21, 177, 194,
              188, 2, 1, 234, 167, 216, 54, 0, 0, 0, 4, 6, 0, 4, 17, 0, 0, 0, 150, 213,
              189, 173, 3, 22, 177, 194, 188, 127, 194, 140, 35, 21, 177, 194, 188]"
    by code_simp
  show ?thesis
    by (simp add: run_eq r stored_wems_def b bnk_bytes_def example_header m h shared_output_def
          del: build_media_file_lookup.simps)
qed

lemma excluded_run:
  "run example_fs True ''o'' example_table = Written excluded_output"
proof -
  have r: "read_wem_table 0 example_table ([], [], []) = Inr ([''a''], [''b''], [])"
    unfolding example_table_def by code_simp
  have b: "build_media_file_lookup [''a''] [] =
           Inr [(84696446, \<lparr>me_hash = 84696446, me_wem_filename = ''a'',
                          me_offset = - 1, me_size = - 1\<rparr>)]"
    by code_simp
  have m: "media_bytes example_fs
             [(84696446, \<lparr>me_hash = 84696446, me_wem_filename = ''a'',
                          me_offset = - 1, me_size = - 1\<rparr>)] =
           Inr ([(84696446, \<lparr>me_hash = 84696446, me_wem_filename = ''a'',
                          me_offset = 0, me_size = 3\<rparr>)],
                [68, 73, 68, 88, 12, 0, 0, 0, 126, 93, 12, 5, 0, 0, 0, 0, 3, 0, 0, 0,
                 68, 65, 84, 65, 3, 0, 0, 0, 1, 2, 3])"
    unfolding example_fs_def by code_simp
  have h: "hirc_bytes ''o'' [''a''] [''b'']
             [(84696446, \<lparr>me_hash = 84696446, me_wem_filename = ''a'',
                          me_offset = 0, me_size = 3\<rparr>)] =
           Inr
             [72, 73, 82, 67, 107, 1, 0, 0, 10, 0, 0, 0, 2, 50, 0, 0, 0, 34, 56, 94,
              127, 1, 0, 2, 0, 0, 126, 93, 12, 5, 3, 0, 0, 0, 0, 0, 0, 0, 0, 0, 0, 0,
              0, 0, 95, 21, 35, 105, 0, 0, 0, 0, 0, 0, 0, 0, 0, 0, 1, 1, 0, 0, 0, 0, 0,
              0, 0, 7, 55, 0, 0, 0, 95, 21, 35, 105, 0, 0, 0, 0, 0, 97, 17, 119, 94, 0,
              0, 0, 0, 0, 2, 0, 7, 0, 0, 32, 64, 0, 0, 112, 66, 0, 3, 8, 0, 0, 0, 0, 0,
              0, 1, 0, 0, 0, 0, 0, 0, 0, 0, 1, 0, 0, 0, 34, 56, 94, 127, 2, 55, 0, 0,
              0, 221, 82, 27, 115, 1, 0, 2, 0, 2, 125, 93, 12, 5, 0, 4, 0, 0, 0, 0, 0,
              0, 0, 0, 0, 0, 0, 0, 4, 139, 21, 149, 0, 1, 58, 0, 0, 0, 0, 0, 0, 0, 0,
              0, 0, 0, 0, 1, 0, 0, 0, 0, 0, 0, 0, 0, 7, 50, 0, 0, 0, 4, 139, 21, 149,
              0, 0, 0, 0, 0, 0, 0, 0, 0, 38, 233, 67, 17, 0, 1, 0, 0, 0, 32, 192, 0, 3,
              8, 0, 0, 0, 0, 0, 0, 1, 0, 0, 0, 0, 0, 0, 0, 0, 1, 0, 0, 0, 221, 82, 27,
              115, 3, 21, 0, 0, 0, 65, 245, 17, 109, 2, 1, 38, 233, 67, 17, 0, 1, 16,
              244, 1, 0, 0, 0, 4, 6, 0, 3, 18, 0, 0, 0, 238, 20, 159, 83, 3, 4, 221,
              82, 27, 115, 0, 0, 0, 4, 112, 93, 12, 5, 3, 16, 0, 0, 0, 66, 245, 17,
              109, 2, 1, 234, 167, 216, 54, 0, 0, 0, 4, 6, 0, 4, 17, 0, 0, 0, 127, 34,
              67, 24, 3, 65, 245, 17, 109, 238, 20, 159, 83, 66, 245, 17, 109, 3, 18,
              0, 0, 0, 127, 194, 140, 35, 3, 4, 34, 56, 94, 127, 0, 0, 0, 4, 112, 93,
              12, 5, 4, 9, 0, 0, 0, 150, 213, 189, 173, 1, 127, 194, 140, 35]"
    by code_simp
  show ?thesis
    by (simp add: run_eq r stored_wems_def b bnk_bytes_def example_header m h excluded_output_def
          del: build_media_file_lookup.simps)
qed

section \<open>Properties of the parsers and the layout of a produced file\<close>

declare parse_chunks.simps [simp del] decode_didx.simps [simp del]

lemma le32_roundtrip_arith:
  fixes n :: int
  assumes "0 \<le> n" "n < 2 ^ 32"
  shows "n mod 256 + 256 * (n div 256 mod 256) + 65536 * (n div 65536 mod 256)
           + 16777216 * (n div 16777216 mod 256) = n"
proof -
  have a: "n div 16777216 mod 256 = n div 16777216"
  proof -
    have "n div 16777216 < 256"
      using assms zdiv_mono1 [of n "2 ^ 32 - 1" 16777216] by simp
    moreover have "0 \<le> n div 16777216"
      using assms by (simp add: pos_imp_zdiv_nonneg_iff)
    ultimately show ?thesis by simp
  qed
  have e1: "n div 16777216 = n div 65536 div 256"
    using zdiv_zmult2_eq [of 256 n 65536] by simp
  have e2: "n div 65536 = n div 256 div 256"
    using zdiv_zmult2_eq [of 256 n 256] by simp
  have b: "n div 65536 = 256 * (n div 16777216) + n div 65536 mod 256"
    unfolding e1 using div_mult_mod_eq [of "n div 65536" 256] by simp
  have c: "n div 256 = 256 * (n div 65536) + n div 256 mod 256"
    unfolding e2 using div_mult_mod_eq [of "n div 256" 256] by simp
  have d: "n = 256 * (n div 256) + n mod 256"
    using div_mult_mod_eq [of n 256] by (simp add: mult.commute)
  show ?thesis
    using a b c d by linarith
qed

lemma from_le32_le32: "u32 n \<Longrightarrow> from_le32 (le32 n @ rest) = n"
  by (simp add: le32_def u32_def uint_word_of_int le32_roundtrip_arith)

lemma u32_at_le32 [simp]: "u32 n \<Longrightarrow> u32_at (le32 n @ rest) 0 = n"
  by (simp add: u32_at_def from_le32_le32)

lemma length_chunk: "length (chunk tag body) = length tag + 4 + length body"
  by (simp add: chunk_def)

lemma parse_chunks_Nil [simp]: "parse_chunks [] = Some []"
  by (simp add: parse_chunks.simps)

lemma parse_chunks_chunk:
  assumes tag: "length tag = 4" and len: "u32 (int (length body))"
  shows "parse_chunks (chunk tag body @ rest)
           = map_option ((#) (bytes_of tag, body)) (parse_chunks rest)"
proof -
  define bs where "bs = chunk tag body @ rest"
  have n: "u32_at bs 4 = int (length body)"
    using tag len by (simp add: bs_def u32_at_def chunk_def from_le32_le32)
  have "length bs = 8 + length body + length rest"
    using tag by (simp add: bs_def chunk_def)
  then have ne: "bs \<noteq> []" "\<not> length bs < 8" "\<not> length bs < 8 + length body"
    by auto
  have parts: "take 4 bs = bytes_of tag"
    "take (length body) (drop 8 bs) = body"
    "drop (8 + length body) bs = rest"
    using tag by (simp_all add: bs_def chunk_def)
  have "parse_chunks bs = map_option ((#) (bytes_of tag, body)) (parse_chunks rest)"
    by (subst parse_chunks.simps) (simp add: n ne parts)
  then show ?thesis
    by (simp only: bs_def)
qed

lemma compute_hash_u32: "u32 (compute_hash name)"
proof -
  have "u32 (foldl (\<lambda>hash c. ((hash * 16777619) XOR py_ord c) AND 0xFFFFFFFF) a s)"
    if "u32 a" for a s
    using that by (induction s arbitrary: a) (simp_all add: mask32_mod u32_def)
  then show ?thesis
    by (simp add: compute_hash_def u32_def)
qed

lemma to_bytes4_le32: "u32 n \<Longrightarrow> to_bytes4 n = Inr (le32 n)"
  by (simp add: to_bytes4_def u32_def)

lemma length_bkhd_body [simp]: "length (bkhd_body bnk_out) = 24"
  by (simp add: bkhd_body_def)

lemma collect_bkhd_items: "collect (bkhd_items bnk_out) = Inr (chunk ''BKHD'' (bkhd_body bnk_out))"
proof -
  have "to_bytes4 0x18 = Inr (le32 24)" "to_bytes4 140 = Inr (le32 140)"
    "to_bytes4 16 = Inr (le32 16)" "to_bytes4 11146 = Inr (le32 11146)"
    by (simp_all add: to_bytes4_def)
  then show ?thesis
    by (simp add: bkhd_items_def chunk_def bkhd_body_def to_bytes4_le32 compute_hash_u32)
qed

lemma decode_didx_entry:
  assumes "u32 (me_hash e)" "u32 (me_offset e)" "u32 (me_size e)"
  shows "decode_didx (didx_entry e @ rest)
           = (me_hash e, me_offset e, me_size e) # decode_didx rest"
proof -
  have "u32_at (didx_entry e @ rest) 0 = me_hash e"
    "u32_at (didx_entry e @ rest) 4 = me_offset e"
    "u32_at (didx_entry e @ rest) 8 = me_size e"
    using assms by (simp_all add: u32_at_def didx_entry_def from_le32_le32)
  then show ?thesis
    by (subst decode_didx.simps) simp
qed

lemma decode_didx_entries:
  "list_all (\<lambda>e. u32 (me_hash e) \<and> u32 (me_offset e) \<and> u32 (me_size e)) es \<Longrightarrow>
   decode_didx (concat (map didx_entry es)) = map (\<lambda>e. (me_hash e, me_offset e, me_size e)) es"
proof (induction es)
  case Nil
  then show ?case by (simp add: decode_didx.simps)
next
  case (Cons e es)
  then show ?case by (simp add: decode_didx_entry)
qed

lemma media_layout_empty: "media_layout fs [] [] [] []"
  by (simp add: media_layout_def sorted_media_hashes_def segments_bytes_def u32_def)

lemma media_bytes_layout:
  assumes "media_bytes fs lk = Inr (lk', m)"
  shows "\<exists>es segs. m = chunk ''DIDX'' (concat (map didx_entry es)) @
                        chunk ''DATA'' (segments_bytes segs)
                  \<and> media_layout fs lk lk' es segs"
proof -
  have "write_media fs lk \<lparr>content = [], pos = length ([] :: byte list)\<rparr>
          = Inr (lk', \<lparr>content = [] @ m, pos = length ([] :: byte list) + length m\<rparr>)"
    by (simp only: write_media_eq assms bindE_simps prod.case)
  then have w: "write_media fs lk \<lparr>content = [], pos = 0\<rparr> = Inr (lk', \<lparr>content = m, pos = length m\<rparr>)"
    by simp
  have "at_end \<lparr>content = [], pos = 0\<rparr>"
    by (simp add: at_end_def)
  from write_media_effect [OF w this] obtain es segs where
    "m = bytes_of ''DIDX'' @ le32 (12 * int (length lk)) @ concat (map didx_entry es) @
         bytes_of ''DATA'' @ le32 (int (length (segments_bytes segs))) @ segments_bytes segs"
    "u32 (12 * int (length lk))" "u32 (int (length (segments_bytes segs)))"
    "length es = length lk" "map (map_of lk') (sorted_media_hashes lk) = map Some es"
    "\<forall>e\<in>set es. u32 (me_hash e) \<and> u32 (me_offset e) \<and> u32 (me_size e)"
    "same_clips lk lk'"
    "map (\<lambda>h. map_option (\<lambda>e. fs (me_wem_filename e)) (map_of lk h)) (sorted_media_hashes lk)
       = map (\<lambda>(p, wem). Some (Some wem)) segs"
    by auto
  then show ?thesis
    by (intro exI [of _ es] exI [of _ segs])
       (simp add: chunk_def media_layout_def length_concat_didx list_all_iff)
qed

lemma hirc_bytes_layout:
  assumes "hirc_bytes bnk_out sfx bgm lk = Inr h"
  shows "\<exists>objs. collect (concat (hirc_objects bnk_out sfx bgm lk)) = Inr objs
              \<and> h = chunk ''HIRC'' (le32 (hirc_entry_count sfx bgm) @ objs)
              \<and> u32 (hirc_entry_count sfx bgm)
              \<and> u32 (int (length (le32 (hirc_entry_count sfx bgm) @ objs)))"
  using assms
  by (auto simp: hirc_bytes_def bindE_eq_Inr to_bytes4_u32 chunk_def)

lemma bnk_bytes_layout:
  assumes "bnk_bytes fs bnk_out sfx bgm lk = Inr bs"
  shows "\<exists>lk' es segs objs.
           bs = chunk ''BKHD'' (bkhd_body bnk_out) @
                (if lk = [] then []
                 else chunk ''DIDX'' (concat (map didx_entry es)) @
                      chunk ''DATA'' (segments_bytes segs)) @
                chunk ''HIRC'' (le32 (hirc_entry_count sfx bgm) @ objs)
         \<and> media_layout fs lk lk' es segs
         \<and> collect (concat (hirc_objects bnk_out sfx bgm lk')) = Inr objs
         \<and> u32 (hirc_entry_count sfx bgm)
         \<and> u32 (int (length (le32 (hirc_entry_count sfx bgm) @ objs)))"
proof (cases "lk = []")
  case True
  with assms obtain h where "hirc_bytes bnk_out sfx bgm [] = Inr h"
    "bs = chunk ''BKHD'' (bkhd_body bnk_out) @ h"
    by (auto simp: bnk_bytes_def collect_bkhd_items bindE_eq_Inr)
  with hirc_bytes_layout [OF this(1)] True show ?thesis
    using media_layout_empty [of fs]
    by (intro exI [of _ "[] :: media_dict"] exI [of _ "[] :: MediaEntry list"]
          exI [of _ "[] :: (nat \<times> byte list) list"]) auto
next
  case False
  with assms obtain lk' m h where m: "media_bytes fs lk = Inr (lk', m)"
    and h: "hirc_bytes bnk_out sfx bgm lk' = Inr h"
    and bs: "bs = chunk ''BKHD'' (bkhd_body bnk_out) @ m @ h"
    by (auto simp: bnk_bytes_def collect_bkhd_items bindE_eq_Inr)
  from media_bytes_layout [OF m] obtain es segs where
    "m = chunk ''DIDX'' (concat (map didx_entry es)) @ chunk ''DATA'' (segments_bytes segs)"
    "media_layout fs lk lk' es segs"
    by blast
  moreover from hirc_bytes_layout [OF h] obtain objs where
    "collect (concat (hirc_objects bnk_out sfx bgm lk')) = Inr objs"
    "h = chunk ''HIRC'' (le32 (hirc_entry_count sfx bgm) @ objs)"
    "u32 (hirc_entry_count sfx bgm)"
    "u32 (int (length (le32 (hirc_entry_count sfx bgm) @ objs)))"
    by blast
  ultimately show ?thesis
    using bs False
    by (intro exI [of _ lk'] exI [of _ es] exI [of _ segs] exI [of _ objs]) simp
qed

lemma read_wem_table_Inr_tabs:
  assumes "read_wem_table i wem_table st = Inr r"
  shows "\<forall>line\<in>set wem_table. tab \<in> set (strip line)"
proof (rule ccontr)
  assume "\<not> (\<forall>line\<in>set wem_table. tab \<in> set (strip line))"
  then obtain line where "line \<in> set wem_table" "tab \<notin> set (strip line)"
    by blast
  from read_wem_table_no_tab [OF this, of i st] assms show False
    by simp
qed

lemma run_written:
  assumes "run fs exclude_bgm bnk_out wem_table = Written bs"
  shows "\<exists>lk. read_wem_table 0 wem_table ([], [], [])
                = Inr (sfx_lines wem_table, bgm_lines wem_table, invalid_lines 0 wem_table)
            \<and> build_media_file_lookup
                 (stored_wems exclude_bgm (sfx_lines wem_table) (bgm_lines wem_table)) []
                = Inr lk
            \<and> bnk_bytes fs bnk_out (sfx_lines wem_table) (bgm_lines wem_table) lk = Inr bs"
proof -
  obtain r where r: "read_wem_table 0 wem_table ([], [], []) = Inr r"
    using assms by (cases "read_wem_table 0 wem_table ([], [], [])") (simp_all add: run_def)
  from read_wem_table_fields [OF read_wem_table_Inr_tabs [OF r], of 0 "[]" "[]" "[]"]
  have f: "read_wem_table 0 wem_table ([], [], [])
             = Inr (sfx_lines wem_table, bgm_lines wem_table, invalid_lines 0 wem_table)"
    by simp
  obtain lk where lk: "build_media_file_lookup
      (stored_wems exclude_bgm (sfx_lines wem_table) (bgm_lines wem_table)) [] = Inr lk"
    using build_media_file_lookup_total by blast
  have "bnk_bytes fs bnk_out (sfx_lines wem_table) (bgm_lines wem_table) lk = Inr bs"
    using assms by (simp add: run_eq f lk split: sum.splits)
  with f lk show ?thesis by blast
qed

lemma bytes_of_tags:
  "bytes_of ''BKHD'' \<noteq> bytes_of ''DIDX''" "bytes_of ''BKHD'' \<noteq> bytes_of ''DATA''"
  "bytes_of ''BKHD'' \<noteq> bytes_of ''HIRC''" "bytes_of ''DIDX'' \<noteq> bytes_of ''DATA''"
  "bytes_of ''DIDX'' \<noteq> bytes_of ''HIRC''" "bytes_of ''DATA'' \<noteq> bytes_of ''HIRC''"
  by code_simp+

lemma parse_chunks_layout:
  assumes "u32 (int (length b))" "lk \<noteq> [] \<Longrightarrow> u32 (int (length d))"
    "lk \<noteq> [] \<Longrightarrow> u32 (int (length a))" "u32 (int (length h))"
  shows "parse_chunks (chunk ''BKHD'' b @
                       (if lk = [] then [] else chunk ''DIDX'' d @ chunk ''DATA'' a) @
                       chunk ''HIRC'' h)
           = Some ([(bytes_of ''BKHD'', b)] @
                   (if lk = [] then []
                    else [(bytes_of ''DIDX'', d), (bytes_of ''DATA'', a)]) @
                   [(bytes_of ''HIRC'', h)])"
proof -
  have h: "parse_chunks (chunk ''HIRC'' h) = Some [(bytes_of ''HIRC'', h)]"
    using parse_chunks_chunk [of "''HIRC''" h "[]"] assms(4) by simp
  show ?thesis
  proof (cases "lk = []")
    case True
    then show ?thesis
      using assms(1) h by (simp add: parse_chunks_chunk)
  next
    case False
    then show ?thesis
      using assms h by (simp add: parse_chunks_chunk)
  qed
qed

lemma run_layout:
  assumes "run fs exclude_bgm bnk_out wem_table = Written bs"
  shows "\<exists>lk lk' es segs objs.
           build_media_file_lookup
             (stored_wems exclude_bgm (sfx_lines wem_table) (bgm_lines wem_table)) [] = Inr lk
         \<and> bs = chunk ''BKHD'' (bkhd_body bnk_out) @
                (if lk = [] then []
                 else chunk ''DIDX'' (concat (map didx_entry es)) @
                      chunk ''DATA'' (segments_bytes segs)) @
                chunk ''HIRC''
                  (le32 (hirc_entry_count (sfx_lines wem_table) (bgm_lines wem_table)) @ objs)
         \<and> media_layout fs lk lk' es segs
         \<and> collect (concat (hirc_objects bnk_out (sfx_lines wem_table) (bgm_lines wem_table)
                      lk')) = Inr objs
         \<and> u32 (hirc_entry_count (sfx_lines wem_table) (bgm_lines wem_table))
         \<and> u32 (int (length (le32 (hirc_entry_count (sfx_lines wem_table)
                                      (bgm_lines wem_table)) @ objs)))"
proof -
  from run_written [OF assms] obtain lk where
    lk: "build_media_file_lookup
           (stored_wems exclude_bgm (sfx_lines wem_table) (bgm_lines wem_table)) [] = Inr lk"
    and b: "bnk_bytes fs bnk_out (sfx_lines wem_table) (bgm_lines wem_table) lk = Inr bs"
    by blast
  from bnk_bytes_layout [OF b] lk show ?thesis
    by blast
qed

lemma parse_chunks_run:
  assumes "media_layout fs lk lk' es segs" "u32 (int (length h))"
  shows "parse_chunks (chunk ''BKHD'' (bkhd_body bnk_out) @
                       (if lk = [] then []
                        else chunk ''DIDX'' (concat (map didx_entry es)) @
                             chunk ''DATA'' (segments_bytes segs)) @
                       chunk ''HIRC'' h)
           = Some ([(bytes_of ''BKHD'', bkhd_body bnk_out)] @
                   (if lk = [] then []
                    else [(bytes_of ''DIDX'', concat (map didx_entry es)),
                          (bytes_of ''DATA'', segments_bytes segs)]) @
                   [(bytes_of ''HIRC'', h)])"
proof (rule parse_chunks_layout)
  show "u32 (int (length (bkhd_body bnk_out)))"
    by (simp add: u32_def)
  show "u32 (int (length (concat (map didx_entry es))))"
    using assms(1) by (simp add: media_layout_def length_concat_didx)
  show "u32 (int (length (segments_bytes segs)))"
    using assms(1) by (simp add: media_layout_def)
  show "u32 (int (length h))"
    by (rule assms(2))
qed

lemma u32_at_bkhd: "u32_at (chunk ''BKHD'' (bkhd_body bnk_out) @ rest) 4 = 24"
proof -
  have "u32 (int (length (bkhd_body bnk_out)))"
    by (simp add: u32_def)
  then have "u32_at (chunk ''BKHD'' (bkhd_body bnk_out) @ rest) 4
               = int (length (bkhd_body bnk_out))"
    by (simp add: u32_at_def chunk_def bytes_of_def from_le32_le32 del: length_bkhd_body)
  then show ?thesis by simp
qed

lemma build_media_file_lookup_keys:
  assumes "build_media_file_lookup wems d = Inr d'"
    and "distinct (map fst d)"
    and "\<forall>k e. map_of d k = Some e \<longrightarrow> me_hash e = k"
  shows "distinct (map fst d')
       \<and> (\<forall>k e. map_of d' k = Some e \<longrightarrow> me_hash e = k)
       \<and> set (map fst d') = set (map fst d) \<union> compute_hash ` set wems"
  using assms
proof (induction wems arbitrary: d)
  case Nil
  then show ?case by simp
next
  case (Cons w rest)
  let ?d = "AList.update (compute_hash w)
              \<lparr>me_hash = compute_hash w, me_wem_filename = w, me_offset = - 1, me_size = - 1\<rparr> d"
  have b: "build_media_file_lookup rest ?d = Inr d'"
    using Cons.prems(1) by (simp add: Let_def)
  have "distinct (map fst ?d)"
    using Cons.prems(2) by (rule distinct_update)
  moreover have "\<forall>k e. map_of ?d k = Some e \<longrightarrow> me_hash e = k"
    using Cons.prems(3) by (auto simp: update_conv')
  ultimately have "distinct (map fst d')
       \<and> (\<forall>k e. map_of d' k = Some e \<longrightarrow> me_hash e = k)
       \<and> set (map fst d') = set (map fst ?d) \<union> compute_hash ` set rest"
    using Cons.IH [OF b] by blast
  moreover have "set (map fst ?d) = insert (compute_hash w) (set (map fst d))"
    using dom_update [of "compute_hash w" _ d] by simp
  ultimately show ?case by auto
qed

lemma same_clips_hash:
  assumes "same_clips lk lk'" "map_of lk' k = Some e'"
  shows "\<exists>e. map_of lk k = Some e \<and> me_hash e = me_hash e'"
proof -
  have "map_of (map (\<lambda>(k, e). (k, entry_id e)) lk') k
          = map_of (map (\<lambda>(k, e). (k, entry_id e)) lk) k"
    using assms(1) by (simp add: same_clips_def)
  then have "map_option entry_id (map_of lk' k) = map_option entry_id (map_of lk k)"
    by (simp add: map_of_map)
  with assms(2) show ?thesis
    by (cases "map_of lk k") (auto simp: entry_id_def)
qed

lemma entries_hashes:
  "map g ks = map Some es \<Longrightarrow> (\<forall>k e. g k = Some e \<longrightarrow> h e = k) \<Longrightarrow> map h es = ks"
  by (induction ks arbitrary: es) auto

lemma media_layout_hashes:
  assumes "media_layout fs lk lk' es segs"
    and "\<forall>k e. map_of lk k = Some e \<longrightarrow> me_hash e = k"
  shows "map me_hash es = sorted_media_hashes lk"
proof -
  have "\<forall>k e. map_of lk' k = Some e \<longrightarrow> me_hash e = k"
    using same_clips_hash assms by (fastforce simp: media_layout_def)
  moreover have "map (map_of lk') (sorted_media_hashes lk) = map Some es"
    using assms(1) by (simp add: media_layout_def)
  ultimately show ?thesis
    by (rule entries_hashes [rotated])
qed

lemma didx_entries_layout:
  assumes "media_layout fs lk lk' es segs" "u32 (int (length h))" "lk \<noteq> []"
  shows "didx_entries (chunk ''BKHD'' (bkhd_body bnk_out) @
                       (if lk = [] then []
                        else chunk ''DIDX'' (concat (map didx_entry es)) @
                             chunk ''DATA'' (segments_bytes segs)) @
                       chunk ''HIRC'' h)
           = map (\<lambda>e. (me_hash e, me_offset e, me_size e)) es"
proof -
  have "list_all (\<lambda>e. u32 (me_hash e) \<and> u32 (me_offset e) \<and> u32 (me_size e)) es"
    using assms(1) by (simp add: media_layout_def)
  moreover have "parse_chunks (chunk ''BKHD'' (bkhd_body bnk_out) @
                       (if lk = [] then []
                        else chunk ''DIDX'' (concat (map didx_entry es)) @
                             chunk ''DATA'' (segments_bytes segs)) @
                       chunk ''HIRC'' h)
           = Some [(bytes_of ''BKHD'', bkhd_body bnk_out),
                   (bytes_of ''DIDX'', concat (map didx_entry es)),
                   (bytes_of ''DATA'', segments_bytes segs),
                   (bytes_of ''HIRC'', h)]"
    using parse_chunks_run [OF assms(1,2), of bnk_out] assms(3) by simp
  ultimately show ?thesis
    by (simp add: didx_entries_def chunk_body_def decode_didx_entries
          bytes_of_tags [symmetric])
qed

lemma didx_entries_no_clips:
  assumes "media_layout fs [] lk' es segs" "u32 (int (length h))"
  shows "didx_entries (chunk ''BKHD'' (bkhd_body bnk_out) @ chunk ''HIRC'' h) = []"
  using parse_chunks_run [OF assms, of bnk_out] bytes_of_tags
  by (simp add: didx_entries_def chunk_body_def)

lemma run_didx_hashes:
  assumes "run fs exclude_bgm bnk_out wem_table = Written bs"
  shows "\<exists>lk. build_media_file_lookup
                (stored_wems exclude_bgm (sfx_lines wem_table) (bgm_lines wem_table)) [] = Inr lk
            \<and> distinct (map fst lk)
            \<and> set (map fst lk)
                = compute_hash ` set (stored_wems exclude_bgm (sfx_lines wem_table)
                                        (bgm_lines wem_table))
            \<and> map fst (didx_entries bs) = sort (map fst lk)"
proof -
  let ?n = "hirc_entry_count (sfx_lines wem_table) (bgm_lines wem_table)"
  from run_layout [OF assms] obtain lk lk' es segs objs where
    lk: "build_media_file_lookup
           (stored_wems exclude_bgm (sfx_lines wem_table) (bgm_lines wem_table)) [] = Inr lk"
    and bs: "bs = chunk ''BKHD'' (bkhd_body bnk_out) @
                (if lk = [] then []
                 else chunk ''DIDX'' (concat (map didx_entry es)) @
                      chunk ''DATA'' (segments_bytes segs)) @
                chunk ''HIRC'' (le32 ?n @ objs)"
    and m: "media_layout fs lk lk' es segs"
    and u: "u32 (int (length (le32 ?n @ objs)))"
    by blast
  from build_media_file_lookup_keys [OF lk] have
    k: "distinct (map fst lk)" "\<forall>k e. map_of lk k = Some e \<longrightarrow> me_hash e = k"
    "set (map fst lk) = compute_hash ` set (stored_wems exclude_bgm (sfx_lines wem_table)
                                        (bgm_lines wem_table))"
    by simp_all
  have "map fst (didx_entries bs) = sort (map fst lk)"
  proof (cases "lk = []")
    case True
    then show ?thesis
      using didx_entries_no_clips [of fs lk' es segs "le32 ?n @ objs" bnk_out] m u bs
      by simp
  next
    case False
    have "didx_entries bs = map (\<lambda>e. (me_hash e, me_offset e, me_size e)) es"
      unfolding bs by (rule didx_entries_layout [OF m u False])
    then have "map fst (didx_entries bs) = map me_hash es"
      by (simp add: comp_def)
    then show ?thesis
      using media_layout_hashes [OF m k(2)] by (simp add: sorted_media_hashes_def)
  qed
  with lk k show ?thesis by blast
qed

section \<open>Reading the object records back\<close>

declare parse_records.simps [simp del]

lemma to_bytes4_hash [simp]: "to_bytes4 (compute_hash s) = Inr (le32 (compute_hash s))"
  by (simp add: to_bytes4_le32 compute_hash_u32)

lemma cak_action_play_reads:
  "reads_as (cak_action_play bnk_out ee)
     (Action (compute_hash (ee_wem_filename ee @ ''_play'')) Play
        (compute_hash (ee_wem_filename ee @ ''_sound'')))"
  by (simp add: reads_as_def cak_action_play_def wf_record_def u32_at_def decode_object_def
        decode_action_kind_def from_le32_le32 compute_hash_u32)

lemma cak_sound_sfx_reads:
  "reads_as (cak_sound_sfx lk mixer_hash se) (sound_view lk mixer_hash SFX se)"
proof (cases "collect (cak_sound_sfx lk mixer_hash se)")
  case (Inl e)
  then show ?thesis by (simp add: reads_as_def)
next
  case (Inr r)
  then obtain e where e: "map_of lk (se_wem_hash se) = Some e"
    and u: "u32 (se_hash se)" "u32 (se_wem_hash se)" "u32 (me_size e)" "u32 mixer_hash"
    and r: "r = [0x02, 0x32, 0x00, 0x00, 0x00] @ le32 (se_hash se) @
                [0x01, 0x00, 0x02, 0x00, 0x00] @ le32 (se_wem_hash se) @ le32 (me_size e) @
                [0, 0, 0, 0, 0, 0] @ le32 0 @ le32 mixer_hash @
                [0, 0, 0, 0, 0, 0, 0, 0, 0, 0, 1, 1, 0, 0, 0, 0, 0, 0, 0]"
    by (cases "map_of lk (se_wem_hash se)")
       (auto simp: cak_sound_sfx_def collect_Cons_Inr to_bytes4_u32 dict_get_def
             simp del: collect.simps(2,3))
  have "wf_record r"
    by (simp add: r wf_record_def u32_at_def)
  moreover have "decode_object (hd r, drop 5 r) = sound_view lk mixer_hash SFX se"
    using u by (simp add: r decode_object_def sound_view_def e u32_at_def u8_at_def
                  from_le32_le32)
  ultimately show ?thesis
    by (simp add: reads_as_def Inr)
qed

lemma from_le32_le32_only: "u32 n \<Longrightarrow> from_le32 (le32 n) = n"
  using from_le32_le32 [of n "[]"] by simp

lemma cak_sound_bgm_reads:
  "reads_as (cak_sound_bgm lk mixer_hash se) (sound_view lk mixer_hash BGM se)"
proof (cases "collect (cak_sound_bgm lk mixer_hash se)")
  case (Inl e)
  then show ?thesis by (simp add: reads_as_def)
next
  case (Inr r)
  define sz where "sz = (case map_of lk (se_wem_hash se) of None \<Rightarrow> 1024
                         | Some media_entry \<Rightarrow> me_size media_entry)"
  have k: "(se_wem_hash se \<in> fst ` set lk) = (map_of lk (se_wem_hash se) \<noteq> None)"
    by (simp add: map_of_eq_None_iff)
  from Inr have u: "u32 (se_hash se)" "u32 (se_wem_hash se)" "u32 sz" "u32 mixer_hash"
    and r: "r = [0x02, 0x37, 0x00, 0x00, 0x00] @ le32 (se_hash se) @
                [0x01, 0x00, 0x02, 0x00, 0x02] @ le32 (se_wem_hash se) @ le32 sz @
                [0, 0, 0, 0, 0, 0] @ le32 0 @ le32 mixer_hash @
                [0, 1, 0x3A, 0, 0, 0, 0, 0, 0, 0, 0, 0, 0, 0, 0, 1, 0, 0, 0, 0, 0, 0, 0, 0]"
    by (cases "map_of lk (se_wem_hash se)";
        auto simp: cak_sound_bgm_def collect_Cons_Inr to_bytes4_u32 dict_get_def sz_def k
             simp del: collect.simps(2,3))+
  have "wf_record r"
    by (simp add: r wf_record_def u32_at_def)
  moreover have "decode_object (hd r, drop 5 r) = sound_view lk mixer_hash BGM se"
    using u by (simp add: r decode_object_def sound_view_def sz_def [symmetric] u32_at_def
                  u8_at_def from_le32_le32)
  ultimately show ?thesis
    by (simp add: reads_as_def Inr)
qed

lemma collect_hashes_length:
  "collect (map (\<lambda>x. to_bytes4 (f x)) xs) = Inr b \<Longrightarrow> length b = 4 * length xs"
  by (induction xs arbitrary: b)
     (auto simp: collect_Cons_Inr to_bytes4_u32 simp del: collect.simps(2,3))

lemma cak_actor_mixer_sfx_reads:
  "reads_as (cak_actor_mixer_sfx mixer_hash sounds) (ActorMixer mixer_hash)"
proof (cases "collect (cak_actor_mixer_sfx mixer_hash sounds)")
  case (Inl e)
  then show ?thesis by (simp add: reads_as_def)
next
  case (Inr r)
  then obtain b where b: "collect (map (\<lambda>x. to_bytes4 (se_hash x)) sounds) = Inr b"
    and u: "u32 (51 + int (length sounds) * 4)" "u32 mixer_hash"
    and r: "r = [0x07] @ le32 (51 + int (length sounds) * 4) @ le32 mixer_hash @
                [0, 0, 0, 0, 0] @ le32 1584861537 @ le32 0 @
                [0x00, 0x02, 0x00, 0x07, 0x00, 0x00, 0x20, 0x40, 0x00, 0x00, 0x70, 0x42,
                 0x00, 0x03, 0x08, 0x00, 0x00, 0x00, 0x00, 0x00, 0x00, 0x01, 0x00, 0x00,
                 0x00, 0x00, 0x00, 0x00, 0x00, 0x00] @
                le32 (int (length sounds)) @ b"
    by (auto simp: cak_actor_mixer_sfx_def Let_def collect_append_Inr collect_Cons_Inr
             to_bytes4_u32 simp del: collect.simps(2,3))
  have l: "length b = 4 * length sounds"
    using b by (rule collect_hashes_length)
  have "wf_record r"
    using u by (simp add: r wf_record_def u32_at_def from_le32_le32 l)
  moreover have "decode_object (hd r, drop 5 r) = ActorMixer mixer_hash"
    using u by (simp add: r decode_object_def u32_at_def from_le32_le32)
  ultimately show ?thesis
    by (simp add: reads_as_def Inr)
qed

lemma cak_actor_mixer_bgm_reads:
  "reads_as (cak_actor_mixer_bgm mixer_hash sounds) (ActorMixer mixer_hash)"
proof (cases "collect (cak_actor_mixer_bgm mixer_hash sounds)")
  case (Inl e)
  then show ?thesis by (simp add: reads_as_def)
next
  case (Inr r)
  then obtain b where b: "collect (map (\<lambda>x. to_bytes4 (se_hash x)) sounds) = Inr b"
    and u: "u32 (46 + int (length sounds) * 4)" "u32 mixer_hash"
    and r: "r = [0x07] @ le32 (46 + int (length sounds) * 4) @ le32 mixer_hash @
                [0, 0, 0, 0, 0] @ le32 0 @ le32 289663270 @
                [0x00, 0x01, 0x00, 0x00, 0x00, 0x20, 0xC0, 0x00, 0x03, 0x08, 0x00, 0x00,
                 0x00, 0x00, 0x00, 0x00, 0x01, 0x00, 0x00, 0x00, 0x00, 0x00, 0x00, 0x00,
                 0x00] @
                le32 (int (length sounds)) @ b"
    by (auto simp: cak_actor_mixer_bgm_def Let_def collect_append_Inr collect_Cons_Inr
             to_bytes4_u32 simp del: collect.simps(2,3))
  have l: "length b = 4 * length sounds"
    using b by (rule collect_hashes_length)
  have "wf_record r"
    using u by (simp add: r wf_record_def u32_at_def from_le32_le32 l)
  moreover have "decode_object (hd r, drop 5 r) = ActorMixer mixer_hash"
    using u by (simp add: r decode_object_def u32_at_def from_le32_le32)
  ultimately show ?thesis
    by (simp add: reads_as_def Inr)
qed

lemma cak_action_stop1_reads:
  "reads_as (cak_action_stop1 ee)
     (Action (compute_hash (ee_wem_filename ee @ ''_stop1'')) Stop 289663270)"
proof -
  have "u32 289663270" "to_bytes4 289663270 = Inr (le32 289663270)"
    by (simp_all add: u32_def to_bytes4_def)
  then show ?thesis
    by (simp add: reads_as_def cak_action_stop1_def wf_record_def u32_at_def
          decode_object_def decode_action_kind_def from_le32_le32 compute_hash_u32)
qed

lemma cak_action_stop2_reads:
  "reads_as (cak_action_stop2 ee)
     (Action (compute_hash (ee_wem_filename ee @ ''_stop2'')) Stop 920168426)"
proof -
  have "u32 920168426" "to_bytes4 920168426 = Inr (le32 920168426)"
    by (simp_all add: u32_def to_bytes4_def)
  then show ?thesis
    by (simp add: reads_as_def cak_action_stop2_def wf_record_def u32_at_def
          decode_object_def decode_action_kind_def from_le32_le32 compute_hash_u32)
qed

lemma u32_list_numeral:
  "u32_list (numeral k) bs = from_le32 bs # u32_list (pred_numeral k) (drop 4 bs)"
  by (simp add: numeral_eq_Suc)

lemma cak_event_sfx_reads:
  "reads_as (cak_event_sfx ee)
     (Event (ee_hash ee) [compute_hash (ee_wem_filename ee @ ''_play'')])"
proof (cases "collect (cak_event_sfx ee)")
  case (Inl e)
  then show ?thesis by (simp add: reads_as_def)
next
  case (Inr r)
  then have u: "u32 (ee_hash ee)"
    and r: "r = [0x04, 0x09, 0x00, 0x00, 0x00] @ le32 (ee_hash ee) @ [0x01] @
                le32 (compute_hash (ee_wem_filename ee @ ''_play''))"
    by (auto simp: cak_event_sfx_def collect_Cons_Inr to_bytes4_u32
             simp del: collect.simps(2,3))
  have "wf_record r"
    by (simp add: r wf_record_def u32_at_def)
  moreover have "decode_object (hd r, drop 5 r)
                   = Event (ee_hash ee) [compute_hash (ee_wem_filename ee @ ''_play'')]"
    using u by (simp add: r decode_object_def u32_at_def u8_at_def from_le32_le32
                  from_le32_le32_only compute_hash_u32)
  ultimately show ?thesis
    by (simp add: reads_as_def Inr)
qed

lemma cak_event_bgm_reads:
  "reads_as (cak_event_bgm ee)
     (Event (ee_hash ee)
        [compute_hash (ee_wem_filename ee @ ''_stop1''),
         compute_hash (ee_wem_filename ee @ ''_play''),
         compute_hash (ee_wem_filename ee @ ''_stop2'')])"
proof (cases "collect (cak_event_bgm ee)")
  case (Inl e)
  then show ?thesis by (simp add: reads_as_def)
next
  case (Inr r)
  then have u: "u32 (ee_hash ee)"
    and r: "r = [0x04, 0x11, 0x00, 0x00, 0x00] @ le32 (ee_hash ee) @ [0x03] @
                le32 (compute_hash (ee_wem_filename ee @ ''_stop1'')) @
                le32 (compute_hash (ee_wem_filename ee @ ''_play'')) @
                le32 (compute_hash (ee_wem_filename ee @ ''_stop2''))"
    by (auto simp: cak_event_bgm_def collect_Cons_Inr to_bytes4_u32
             simp del: collect.simps(2,3))
  have "wf_record r"
    by (simp add: r wf_record_def u32_at_def)
  moreover have "decode_object (hd r, drop 5 r)
                   = Event (ee_hash ee)
                       [compute_hash (ee_wem_filename ee @ ''_stop1''),
                        compute_hash (ee_wem_filename ee @ ''_play''),
                        compute_hash (ee_wem_filename ee @ ''_stop2'')]"
    using u by (simp add: r decode_object_def u32_at_def u8_at_def from_le32_le32
                  from_le32_le32_only compute_hash_u32 u32_list_numeral)
  ultimately show ?thesis
    by (simp add: reads_as_def Inr)
qed

lemma from_le32_append: "4 \<le> length xs \<Longrightarrow> from_le32 (xs @ ys) = from_le32 xs"
proof -
  assume "4 \<le> length xs"
  then obtain a b c d rest where "xs = a # b # c # d # rest"
    by (cases xs; cases "tl xs"; cases "tl (tl xs)"; cases "tl (tl (tl xs))") auto
  then show ?thesis by simp
qed

lemma parse_records_Nil [simp]: "parse_records [] = Some []"
  by (simp add: parse_records.simps)

lemma parse_records_wf:
  assumes "wf_record r"
  shows "parse_records (r @ rest) = map_option ((#) (hd r, drop 5 r)) (parse_records rest)"
proof -
  define bs where "bs = r @ rest"
  have l: "5 \<le> length r" and f: "u32_at r 1 = int (length r) - 5"
    using assms by (simp_all add: wf_record_def)
  have "u32_at bs 1 = u32_at r 1"
    using l by (simp add: bs_def u32_at_def from_le32_append)
  then have n: "nat (u32_at bs (Suc 0)) = length r - 5"
    using f l by simp
  have ne: "bs \<noteq> []" "\<not> length bs < 5" "\<not> length bs < 5 + (length r - 5)"
    using l by (auto simp: bs_def)
  have parts: "hd bs = hd r" "take (length r - 5) (drop 5 bs) = drop 5 r"
    "drop (5 + (length r - 5)) bs = rest"
    using l by (cases r; auto simp: bs_def)+
  have "parse_records bs = map_option ((#) (hd r, drop 5 r)) (parse_records rest)"
    by (subst parse_records.simps) (simp add: n ne parts)
  then show ?thesis
    by (simp only: bs_def)
qed

lemma reads_all:
  "list_all2 reads_as os vs \<Longrightarrow> collect (concat os) = Inr objs \<Longrightarrow>
   map_option (map decode_object) (parse_records objs) = Some vs"
proof (induction os vs arbitrary: objs rule: list_all2_induct)
  case Nil
  then show ?case by simp
next
  case (Cons x os v vs)
  from Cons.prems obtain a b where a: "collect x = Inr a" and b: "collect (concat os) = Inr b"
    and objs: "objs = a @ b"
    by (auto simp: collect_append_Inr)
  from Cons.hyps(1) a have w: "wf_record a" and d: "decode_object (hd a, drop 5 a) = v"
    by (simp_all add: reads_as_def)
  from Cons.IH [OF b] obtain recs where "parse_records b = Some recs"
    "map decode_object recs = vs"
    by auto
  then show ?case
    by (simp add: objs parse_records_wf [OF w] d)
qed

lemma list_all2_concat_map:
  "(\<And>x. x \<in> set xs \<Longrightarrow> list_all2 P (f x) (g x)) \<Longrightarrow>
   list_all2 P (concat (map f xs)) (concat (map g xs))"
  by (induction xs) (auto intro: list_all2_appendI)

lemma list_all2_map_map:
  "(\<And>x. x \<in> set xs \<Longrightarrow> P (f x) (g x)) \<Longrightarrow> list_all2 P (map f xs) (map g xs)"
  by (induction xs) auto

lemma mixer_objects_reads:
  "list_all2 reads_as (mixer_objects lk sounds m) (mixer_view lk sounds m)"
proof (cases m)
  case (Pair mixer_hash mixer_type)
  show ?thesis
  proof (cases mixer_type)
    case SFX
    then show ?thesis
      by (auto simp: Pair mixer_objects_def mixer_view_def Let_def
            intro!: list_all2_appendI list_all2_map_map cak_sound_sfx_reads
                    cak_actor_mixer_sfx_reads)
  next
    case BGM
    then show ?thesis
      by (auto simp: Pair mixer_objects_def mixer_view_def Let_def
            intro!: list_all2_appendI list_all2_map_map cak_sound_bgm_reads
                    cak_actor_mixer_bgm_reads)
  qed
qed

lemma event_objects_reads:
  "list_all2 reads_as (event_objects bnk_out ee) (event_view ee)"
  by (cases "ee_wem_type ee")
     (simp_all add: event_objects_def event_view_def Let_def cak_action_play_reads
        cak_action_stop1_reads cak_action_stop2_reads cak_event_sfx_reads cak_event_bgm_reads)

lemma hirc_objects_reads:
  "list_all2 reads_as (hirc_objects bnk_out sfx bgm lk) (hirc_objects_view bnk_out sfx bgm lk)"
  unfolding hirc_objects_def hirc_objects_view_def
  by (intro list_all2_appendI list_all2_concat_map mixer_objects_reads event_objects_reads)

lemma chunk_body_hirc:
  assumes "media_layout fs lk lk' es segs" "u32 (int (length h))"
  shows "chunk_body ''HIRC''
           (chunk ''BKHD'' (bkhd_body bnk_out) @
            (if lk = [] then []
             else chunk ''DIDX'' (concat (map didx_entry es)) @
                  chunk ''DATA'' (segments_bytes segs)) @
            chunk ''HIRC'' h) = Some h"
  using parse_chunks_run [OF assms, of bnk_out]
  by (simp add: chunk_body_def bytes_of_tags [symmetric])

lemma run_hirc_view:
  assumes "run fs exclude_bgm bnk_out wem_table = Written bs"
  shows "\<exists>lk'. set (map fst lk')
                 = compute_hash ` set (stored_wems exclude_bgm (sfx_lines wem_table)
                                         (bgm_lines wem_table))
             \<and> hirc_count bs
                 = Some (hirc_entry_count (sfx_lines wem_table) (bgm_lines wem_table))
             \<and> hirc_view bs
                 = Some (hirc_objects_view bnk_out (sfx_lines wem_table)
                           (bgm_lines wem_table) lk')"
proof -
  let ?sfx = "sfx_lines wem_table" and ?bgm = "bgm_lines wem_table"
  let ?n = "hirc_entry_count ?sfx ?bgm"
  from run_layout [OF assms] obtain lk lk' es segs objs where
    lk: "build_media_file_lookup (stored_wems exclude_bgm ?sfx ?bgm) [] = Inr lk"
    and bs: "bs = chunk ''BKHD'' (bkhd_body bnk_out) @
                (if lk = [] then []
                 else chunk ''DIDX'' (concat (map didx_entry es)) @
                      chunk ''DATA'' (segments_bytes segs)) @
                chunk ''HIRC'' (le32 ?n @ objs)"
    and m: "media_layout fs lk lk' es segs"
    and o: "collect (concat (hirc_objects bnk_out ?sfx ?bgm lk')) = Inr objs"
    and c: "u32 ?n"
    and u: "u32 (int (length (le32 ?n @ objs)))"
    by blast
  have h: "chunk_body ''HIRC'' bs = Some (le32 ?n @ objs)"
    unfolding bs by (rule chunk_body_hirc [OF m u])
  have "set (map fst lk) = compute_hash ` set (stored_wems exclude_bgm ?sfx ?bgm)"
    using build_media_file_lookup_keys [OF lk] by simp
  moreover have "map fst lk' = map fst lk"
    using m by (simp add: media_layout_def same_clips_keys)
  ultimately have k: "set (map fst lk') = compute_hash ` set (stored_wems exclude_bgm ?sfx ?bgm)"
    by simp
  have n: "hirc_count bs = Some ?n"
    using c by (simp add: hirc_count_def h)
  have "map_option (map decode_object) (parse_records objs)
          = Some (hirc_objects_view bnk_out ?sfx ?bgm lk')"
    using hirc_objects_reads o by (rule reads_all)
  then have v: "hirc_view bs = Some (hirc_objects_view bnk_out ?sfx ?bgm lk')"
    by (simp add: hirc_view_def h)
  from k n v show ?thesis by blast
qed

lemma length_concat_insort_key:
  "length (concat (map g (insort_key f x xs))) = length (g x) + length (concat (map g xs))"
  by (induction xs) auto

lemma length_concat_sort_key:
  "length (concat (map g (sort_key f xs))) = length (concat (map g xs))"
  by (induction xs) (simp_all add: length_concat_insort_key)

lemma length_filter_sort_key:
  "length (filter P (sort_key f xs)) = length (filter P xs)"
  by (simp add: filter_sort)

lemma mixer_sounds_lengths:
  "length (filter (\<lambda>x. se_wem_type x = SFX) (sound_entry_list sfx bgm)) = length sfx"
  "length (filter (\<lambda>x. se_wem_type x = BGM) (sound_entry_list sfx bgm)) = length bgm"
  by (simp_all add: sound_entry_list_def length_filter_sort_key filter_map comp_def)

lemma length_mixer_view_sfx:
  "length (mixer_view lk (sound_entry_list sfx bgm) (h, SFX))
     = (if sfx = [] then 0 else length sfx + 1)"
proof -
  define ms where "ms = filter (\<lambda>x. se_wem_type x = SFX) (sound_entry_list sfx bgm)"
  have l: "length ms = length sfx"
    by (simp add: ms_def mixer_sounds_lengths)
  then have e: "(ms = []) = (sfx = [])"
    by (metis length_0_conv)
  show ?thesis
    by (simp add: mixer_view_def Let_def ms_def [symmetric] l e)
qed

lemma length_mixer_view_bgm:
  "length (mixer_view lk (sound_entry_list sfx bgm) (h, BGM))
     = (if bgm = [] then 0 else length bgm + 1)"
proof -
  define ms where "ms = filter (\<lambda>x. se_wem_type x = BGM) (sound_entry_list sfx bgm)"
  have l: "length ms = length bgm"
    by (simp add: ms_def mixer_sounds_lengths)
  then have e: "(ms = []) = (bgm = [])"
    by (metis length_0_conv)
  show ?thesis
    by (simp add: mixer_view_def Let_def ms_def [symmetric] l e)
qed

lemma mixer_order_cases:
  "mixer_order bnk_out
     = [(compute_hash (bnk_sfx_audio_mixer bnk_out), SFX),
        (compute_hash (bnk_bgm_audio_mixer bnk_out), BGM)]
   \<or> mixer_order bnk_out
     = [(compute_hash (bnk_bgm_audio_mixer bnk_out), BGM),
        (compute_hash (bnk_sfx_audio_mixer bnk_out), SFX)]"
  by (simp add: mixer_order_def)

lemma length_mixers_view:
  "length (concat (map (mixer_view lk (sound_entry_list sfx bgm)) (mixer_order bnk_out)))
     = (if sfx = [] then 0 else length sfx + 1) + (if bgm = [] then 0 else length bgm + 1)"
  using mixer_order_cases [of bnk_out]
proof
  assume "mixer_order bnk_out
     = [(compute_hash (bnk_sfx_audio_mixer bnk_out), SFX),
        (compute_hash (bnk_bgm_audio_mixer bnk_out), BGM)]"
  then show ?thesis
    by (simp only: list.map concat.simps append_Nil2 length_append length_mixer_view_sfx
          length_mixer_view_bgm)
next
  assume "mixer_order bnk_out
     = [(compute_hash (bnk_bgm_audio_mixer bnk_out), BGM),
        (compute_hash (bnk_sfx_audio_mixer bnk_out), SFX)]"
  then show ?thesis
    by (simp only: list.map concat.simps append_Nil2 length_append length_mixer_view_sfx
          length_mixer_view_bgm add.commute)
qed

lemma length_event_view:
  "length (event_view ee) = (case ee_wem_type ee of SFX \<Rightarrow> 2 | BGM \<Rightarrow> 4)"
  by (cases "ee_wem_type ee") (simp_all add: event_view_def Let_def)

lemma length_concat_const:
  "(\<And>x. x \<in> set xs \<Longrightarrow> length (g x) = n) \<Longrightarrow>
   length (concat (map g xs)) = n * length xs"
  by (induction xs) simp_all

lemma length_events_view:
  "length (concat (map event_view (event_entry_list sfx bgm)))
     = 2 * length sfx + 4 * length bgm"
proof -
  have "length (concat (map event_view
          (map (\<lambda>wem_filename.
               \<lparr>ee_hash = compute_hash (wem_filename @ ''_play_event''),
                ee_wem_filename = wem_filename,
                ee_wem_type = SFX\<rparr>) sfx))) = 2 * length (map (\<lambda>wem_filename.
               \<lparr>ee_hash = compute_hash (wem_filename @ ''_play_event''),
                ee_wem_filename = wem_filename,
                ee_wem_type = SFX\<rparr>) sfx)"
    by (rule length_concat_const) (auto simp: length_event_view)
  moreover have "length (concat (map event_view
          (map (\<lambda>wem_filename.
               \<lparr>ee_hash = compute_hash (wem_filename @ ''_play_event''),
                ee_wem_filename = wem_filename,
                ee_wem_type = BGM\<rparr>) bgm))) = 4 * length (map (\<lambda>wem_filename.
               \<lparr>ee_hash = compute_hash (wem_filename @ ''_play_event''),
                ee_wem_filename = wem_filename,
                ee_wem_type = BGM\<rparr>) bgm)"
    by (rule length_concat_const) (auto simp: length_event_view)
  ultimately show ?thesis
    by (simp add: event_entry_list_def length_concat_sort_key del: map_map)
qed

lemma length_hirc_objects_view:
  "int (length (hirc_objects_view bnk_out sfx bgm lk))
     = (if sfx = [] then 0 else 1) + (if bgm = [] then 0 else 1)
       + 3 * int (length sfx) + 5 * int (length bgm)"
  by (simp add: hirc_objects_view_def length_mixers_view length_events_view)

lemma hirc_entry_count_eq:
  "hirc_entry_count sfx bgm
     = (if sfx = [] then 0 else 1) + (if bgm = [] then 0 else 1)
       + 3 * int (length sfx) + 5 * int (length bgm)"
  by (simp add: hirc_entry_count_def)

text \<open>
  Claim C1. For every string \<open>s\<close>, \<open>compute_hash s\<close> is the 32-bit FNV-style
  accumulation of the specification (start 2166136261, then
  \<open>accum = ((accum * 16777619) XOR element) mod 2^32\<close> per element) applied to the
  lower-cased form of \<open>s\<close>. Hence two strings with the same lower-cased form have the
  same hash, every casing of \<open>foo.wem\<close> hashes as \<open>foo.wem\<close> does, in particular
  \<open>FOO.WEM\<close>, and the empty string hashes to 2166136261.
\<close>

theorem compute_hash_is_fnv_of_lowercase:
  "compute_hash s = fnv_spec (map py_ord (lower s))
   \<and> (lower s = lower t \<longrightarrow> compute_hash s = compute_hash t)
   \<and> (lower t = ''foo.wem'' \<longrightarrow> compute_hash t = compute_hash ''foo.wem'')
   \<and> compute_hash ''foo.wem'' = compute_hash ''FOO.WEM''
   \<and> compute_hash [] = 2166136261"
proof -
  have low: "lower ''foo.wem'' = ''foo.wem''" "lower ''FOO.WEM'' = ''foo.wem''"
    by code_simp+
  have a: "lower t = ''foo.wem'' \<longrightarrow> compute_hash t = compute_hash ''foo.wem''"
    using low(1) compute_hash_cong [of t "''foo.wem''"] by simp
  have b: "compute_hash ''foo.wem'' = compute_hash ''FOO.WEM''"
    using low by (intro compute_hash_cong) simp
  have c: "compute_hash [] = 2166136261"
    by (simp add: compute_hash_def lower_def)
  show ?thesis
    using compute_hash_spec [of s] compute_hash_cong [of s t] a b c by blast
qed

theorem compute_hash_is_fnv_of_lowercase_witness:
  "lower ''Foo.Wem'' = lower ''fOO.wEM''
   \<and> lower ''fOO.wEM'' = ''foo.wem''
   \<and> compute_hash ''Foo.Wem'' = compute_hash ''fOO.wEM''
   \<and> compute_hash ''fOO.wEM'' = compute_hash ''foo.wem''
   \<and> compute_hash ''Foo.Wem'' = 2635936836"
proof -
  have l1: "lower ''Foo.Wem'' = lower ''fOO.wEM''"
    by code_simp
  have l2: "lower ''fOO.wEM'' = ''foo.wem''"
    by code_simp
  have v: "compute_hash ''Foo.Wem'' = 2635936836"
    by code_simp
  show ?thesis
    using compute_hash_is_fnv_of_lowercase [of "''Foo.Wem''" "''fOO.wEM''"] l1 l2 v
    by simp
qed


text \<open>
  Claim C10. A table line that has no tab character after stripping makes the reading
  loop fail on the second split field with an index error, whatever the other lines
  are, and the run stops before the output file is opened.
\<close>

theorem line_without_tab_aborts:
  "line \<in> set wem_table \<Longrightarrow> tab \<notin> set (strip line) \<Longrightarrow>
   run fs exclude_bgm bnk_out wem_table = Aborted IndexError"
  by (simp add: run_def read_wem_table_no_tab)

theorem line_without_tab_aborts_witness:
  "''BGM'' @ [CHR 0x0A] \<in> set short_line_table
   \<and> tab \<notin> set (strip (''BGM'' @ [CHR 0x0A]))
   \<and> run example_fs False ''o'' short_line_table = Aborted IndexError"
proof -
  have m: "''BGM'' @ [CHR 0x0A] \<in> set short_line_table"
    by (simp add: short_line_table_def)
  have t: "tab \<notin> set (strip (''BGM'' @ [CHR 0x0A]))"
    by code_simp
  show ?thesis
    using m t line_without_tab_aborts [OF m t, of example_fs False "''o''"] by simp
qed




text \<open>
  Claim C4: the duplicate check does not fire. The table with the line \<open>SFX<TAB>a\<close>
  twice gives the path \<open>a\<close> twice; the catalog is built with one entry and the run
  writes the whole output file.
\<close>

theorem duplicate_path_not_rejected:
  "sfx_lines duplicate_table = [''a'', ''a'']
   \<and> build_media_file_lookup [''a'', ''a''] []
       = Inr [(84696446, \<lparr>me_hash = 84696446, me_wem_filename = ''a'',
                            me_offset = - 1, me_size = - 1\<rparr>)]
   \<and> run example_fs False ''o'' duplicate_table = Written duplicate_output"
proof -
  have "sfx_lines duplicate_table = [''a'', ''a'']"
    unfolding duplicate_table_def by code_simp
  moreover have "build_media_file_lookup [''a'', ''a''] []
       = Inr [(84696446, \<lparr>me_hash = 84696446, me_wem_filename = ''a'',
                            me_offset = - 1, me_size = - 1\<rparr>)]"
    by code_simp
  ultimately show ?thesis
    using duplicate_run by simp
qed

text \<open>
  Claim C6: the padding does not align the clips. With two clips of three bytes the loop
  writes the first at offset 0, pads by three bytes and records the offset 6 for the
  second, which is not a multiple of 8.
\<close>

theorem second_clip_offset_not_aligned:
  "write_data example_fs [84696445, 84696446]
     ([(84696446, \<lparr>me_hash = 84696446, me_wem_filename = ''a'',
                    me_offset = - 1, me_size = - 1\<rparr>),
       (84696445, \<lparr>me_hash = 84696445, me_wem_filename = ''b'',
                    me_offset = - 1, me_size = - 1\<rparr>)],
      0, \<lparr>content = [], pos = 0\<rparr>)
   = Inr ([(84696446, \<lparr>me_hash = 84696446, me_wem_filename = ''a'',
                         me_offset = 6, me_size = 3\<rparr>),
           (84696445, \<lparr>me_hash = 84696445, me_wem_filename = ''b'',
                         me_offset = 0, me_size = 3\<rparr>)],
          9, \<lparr>content = [4, 5, 6, 0, 0, 0, 1, 2, 3], pos = 9\<rparr>)
   \<and> (6 :: int) mod 8 \<noteq> 0"
proof -
  let ?lk = "[(84696446, \<lparr>me_hash = 84696446, me_wem_filename = ''a'',
                          me_offset = - 1, me_size = - 1\<rparr>),
              (84696445, \<lparr>me_hash = 84696445, me_wem_filename = ''b'',
                          me_offset = - 1, me_size = - 1\<rparr>)]"
  let ?lk' = "[(84696446, \<lparr>me_hash = 84696446, me_wem_filename = ''a'',
                           me_offset = 6, me_size = 3\<rparr>),
               (84696445, \<lparr>me_hash = 84696445, me_wem_filename = ''b'',
                           me_offset = 0, me_size = 3\<rparr>)]"
  let ?body = "[4, 5, 6, 0, 0, 0, 1, 2, 3] :: byte list"
  have d: "data_bytes example_fs [84696445, 84696446] (?lk, 0, []) = Inr (?lk', 9, ?body)"
    unfolding example_fs_def by code_simp
  have "write_data example_fs [84696445, 84696446]
          (?lk, 0, \<lparr>content = [] @ [], pos = length ([] :: byte list) + length ([] :: byte list)\<rparr>)
        = Inr (?lk', 9, \<lparr>content = [] @ ?body, pos = length ([] :: byte list) + length ?body\<rparr>)"
    by (simp only: write_data_eq d bindE_simps prod.case)
  then show ?thesis
    by (simp del: write_data.simps)
qed


text \<open>
  Claim C2. In every produced file the entries of the clip index are strictly ascending
  in their hash field, and the hashes in the index are exactly the hashes of the stored
  clips (the SFX clips, and the BGM clips unless they are excluded). A file without a
  DIDX chunk has no entries.
\<close>

theorem didx_hashes_strictly_ascending:
  assumes "run fs exclude_bgm bnk_out wem_table = Written bs"
  shows "sorted_wrt (<) (map fst (didx_entries bs))
       \<and> set (map fst (didx_entries bs))
           = compute_hash ` set (stored_wems exclude_bgm (sfx_lines wem_table)
                                   (bgm_lines wem_table))"
proof -
  from run_didx_hashes [OF assms] obtain lk where
    "build_media_file_lookup
       (stored_wems exclude_bgm (sfx_lines wem_table) (bgm_lines wem_table)) [] = Inr lk
     \<and> distinct (map fst lk)
     \<and> set (map fst lk)
         = compute_hash ` set (stored_wems exclude_bgm (sfx_lines wem_table)
                                 (bgm_lines wem_table))
     \<and> map fst (didx_entries bs) = sort (map fst lk)" ..
  then show ?thesis
    by (simp add: strict_sorted_iff)
qed

theorem didx_hashes_strictly_ascending_witness:
  "run example_fs False ''o'' example_table = Written example_output
   \<and> didx_entries example_output = [(84696445, 0, 3), (84696446, 6, 3)]
   \<and> sorted_wrt (<) (map fst (didx_entries example_output))
   \<and> compute_hash ''b'' = 84696445 \<and> compute_hash ''a'' = 84696446"
proof -
  have "sorted_wrt (<) (map fst (didx_entries example_output))"
    using didx_hashes_strictly_ascending [OF example_run] by (rule conjunct1)
  moreover have "didx_entries example_output = [(84696445, 0, 3), (84696446, 6, 3)]"
    unfolding example_output_def by code_simp
  moreover have "compute_hash ''b'' = 84696445" "compute_hash ''a'' = 84696446"
    by code_simp+
  ultimately show ?thesis
    using example_run by simp
qed

text \<open>
  Claim C3. Every produced file is a sequence of chunks, each made of its tag, the
  length of its body as an unsigned 32-bit field, and the body: BKHD with a body of 24
  bytes (the field holds 0x18); if the catalog is not empty, DIDX with 12 bytes for each
  entry of the catalog and DATA, whose body is the clips in the order of the index, each
  after its padding; and HIRC, whose body is the object count and the object records.
  Every length fits its field, so that reading the file back chunk by chunk, each body
  as long as its field declares, gives these tags and bodies and consumes the file.
\<close>

theorem chunk_lengths_match_bodies:
  assumes "run fs exclude_bgm bnk_out wem_table = Written bs"
  shows "\<exists>lk lk' es segs objs.
           build_media_file_lookup
             (stored_wems exclude_bgm (sfx_lines wem_table) (bgm_lines wem_table)) [] = Inr lk
         \<and> bs = chunk ''BKHD'' (bkhd_body bnk_out) @
                (if lk = [] then []
                 else chunk ''DIDX'' (concat (map didx_entry es)) @
                      chunk ''DATA'' (segments_bytes segs)) @
                chunk ''HIRC''
                  (le32 (hirc_entry_count (sfx_lines wem_table) (bgm_lines wem_table)) @ objs)
         \<and> parse_chunks bs
             = Some ([(bytes_of ''BKHD'', bkhd_body bnk_out)] @
                     (if lk = [] then []
                      else [(bytes_of ''DIDX'', concat (map didx_entry es)),
                            (bytes_of ''DATA'', segments_bytes segs)]) @
                     [(bytes_of ''HIRC'',
                       le32 (hirc_entry_count (sfx_lines wem_table) (bgm_lines wem_table))
                       @ objs)])
         \<and> u32_at bs 4 = 0x18
         \<and> length (bkhd_body bnk_out) = 24
         \<and> length es = length lk
         \<and> length (concat (map didx_entry es)) = 12 * length lk
         \<and> media_layout fs lk lk' es segs
         \<and> collect (concat (hirc_objects bnk_out (sfx_lines wem_table) (bgm_lines wem_table)
                      lk')) = Inr objs
         \<and> u32 (int (length (bkhd_body bnk_out)))
         \<and> u32 (int (length (concat (map didx_entry es))))
         \<and> u32 (int (length (segments_bytes segs)))
         \<and> u32 (int (length (le32 (hirc_entry_count (sfx_lines wem_table)
                                      (bgm_lines wem_table)) @ objs)))"
proof -
  let ?n = "hirc_entry_count (sfx_lines wem_table) (bgm_lines wem_table)"
  from run_layout [OF assms] obtain lk lk' es segs objs where
    lk: "build_media_file_lookup
           (stored_wems exclude_bgm (sfx_lines wem_table) (bgm_lines wem_table)) [] = Inr lk"
    and bs: "bs = chunk ''BKHD'' (bkhd_body bnk_out) @
                (if lk = [] then []
                 else chunk ''DIDX'' (concat (map didx_entry es)) @
                      chunk ''DATA'' (segments_bytes segs)) @
                chunk ''HIRC'' (le32 ?n @ objs)"
    and m: "media_layout fs lk lk' es segs"
    and o: "collect (concat (hirc_objects bnk_out (sfx_lines wem_table) (bgm_lines wem_table)
                      lk')) = Inr objs"
    and u: "u32 (int (length (le32 ?n @ objs)))"
    by blast
  have p: "parse_chunks bs
             = Some ([(bytes_of ''BKHD'', bkhd_body bnk_out)] @
                     (if lk = [] then []
                      else [(bytes_of ''DIDX'', concat (map didx_entry es)),
                            (bytes_of ''DATA'', segments_bytes segs)]) @
                     [(bytes_of ''HIRC'', le32 ?n @ objs)])"
    unfolding bs by (rule parse_chunks_run [OF m u])
  have f: "u32_at bs 4 = 0x18"
    unfolding bs by (simp only: u32_at_bkhd)
  have l: "length es = length lk" "length (concat (map didx_entry es)) = 12 * length lk"
    "u32 (int (length (concat (map didx_entry es))))" "u32 (int (length (segments_bytes segs)))"
    using m by (simp_all add: media_layout_def length_concat_didx)
  have b: "length (bkhd_body bnk_out) = 24" "u32 (int (length (bkhd_body bnk_out)))"
    by (simp_all add: u32_def)
  show ?thesis
    using lk bs p f l b m o u by blast
qed

theorem chunk_lengths_match_bodies_witness:
  "run example_fs False ''o'' example_table = Written example_output
   \<and> u32_at example_output 4 = 24
   \<and> map_option (map (\<lambda>(tag, body). (tag, length body))) (parse_chunks example_output)
       = Some [(bytes_of ''BKHD'', 24), (bytes_of ''DIDX'', 24), (bytes_of ''DATA'', 9),
               (bytes_of ''HIRC'', 363)]
   \<and> length example_output = 452"
proof -
  have "u32_at example_output 4 = 24"
    using chunk_lengths_match_bodies [OF example_run] by auto
  moreover have
    "map_option (map (\<lambda>(tag, body). (tag, length body))) (parse_chunks example_output)
       = Some [(bytes_of ''BKHD'', 24), (bytes_of ''DIDX'', 24), (bytes_of ''DATA'', 9),
               (bytes_of ''HIRC'', 363)]"
    unfolding example_output_def by code_simp
  moreover have "length example_output = 452"
    unfolding example_output_def by code_simp
  ultimately show ?thesis
    using example_run by simp
qed


text \<open>
  Claim C7. In every produced file the object count at the start of the HIRC body is
  the number of categories with at least one clip, plus three for each SFX line, plus
  five for each BGM line, and it is the number of object records that follow it in the
  HIRC body.
\<close>

theorem hirc_count_matches_records:
  assumes "run fs exclude_bgm bnk_out wem_table = Written bs"
  shows "hirc_count bs
           = Some ((if sfx_lines wem_table = [] then 0 else 1)
                   + (if bgm_lines wem_table = [] then 0 else 1)
                   + 3 * int (length (sfx_lines wem_table))
                   + 5 * int (length (bgm_lines wem_table)))
       \<and> map_option (\<lambda>objects. int (length objects)) (hirc_view bs) = hirc_count bs"
proof -
  from run_hirc_view [OF assms] obtain lk' where
    "hirc_count bs = Some (hirc_entry_count (sfx_lines wem_table) (bgm_lines wem_table))"
    "hirc_view bs = Some (hirc_objects_view bnk_out (sfx_lines wem_table)
                            (bgm_lines wem_table) lk')"
    by blast
  then show ?thesis
    by (simp only: hirc_entry_count_eq length_hirc_objects_view option.map simp_thms)
qed

theorem hirc_count_matches_records_witness:
  "run example_fs False ''o'' example_table = Written example_output
   \<and> sfx_lines example_table = [''a'']
   \<and> bgm_lines example_table = [''b'']
   \<and> hirc_count example_output = Some 10
   \<and> map_option (\<lambda>objects. int (length objects)) (hirc_view example_output) = Some 10"
proof -
  have v: "sfx_lines example_table = [''a'']" "bgm_lines example_table = [''b'']"
    unfolding example_table_def by code_simp+
  have "hirc_count example_output = Some 10"
    "map_option (\<lambda>objects. int (length objects)) (hirc_view example_output) = Some 10"
    using hirc_count_matches_records [OF example_run] by (simp_all add: v)
  then show ?thesis
    using example_run v by simp
qed

end
